theory Spec2Isabelle
  imports Main "HOL-Library.Char_ord" "HOL-Library.List_Lexorder" "HOL-Library.AList"
begin

section \<open>Maek: a shallow embedding of \<^verbatim>\<open>Maekfile.js\<close>\<close>

text \<open>
  The development follows \<^verbatim>\<open>init_maek\<close> in \<^verbatim>\<open>src/Maekfile.js\<close>.

  Modelling conventions.
  \<^item> JavaScript strings are \<^typ>\<open>string\<close>; the default \<^verbatim>\<open>Array.prototype.sort\<close> on strings
    is the lexicographic order on character codes.
  \<^item> The plain objects used as dictionaries (\<^verbatim>\<open>maek.tasks\<close>, \<^verbatim>\<open>hashCache\<close>, \<^verbatim>\<open>inDepends\<close>) are
    maps, which hold their own properties. The \<^verbatim>\<open>in\<close> operator also sees the properties
    inherited from \<^verbatim>\<open>Object.prototype\<close>: for \<^verbatim>\<open>hashCache\<close> and \<^verbatim>\<open>inDepends\<close> it is \<open>js_in\<close>. For
    \<^verbatim>\<open>maek.tasks\<close> only the own properties are modelled, so the resolver is described for
    targets whose names \<^verbatim>\<open>Object.prototype\<close> does not define (\<open>plain\<close> names).
  \<^item> Task objects are shared between targets, so they live in a store (\<open>heap\<close>) indexed by
    object identity and \<^verbatim>\<open>maek.tasks\<close> maps a target to such an identity.
  \<^item> The file system is a map from paths to file contents; a path without an entry cannot
    be read. Directories are not modelled, so \<^verbatim>\<open>mkdir\<close> has no effect.
  \<^item> Everything outside the program is a field of \<open>env\<close>: \<^verbatim>\<open>JSON.stringify\<close>,
    \<^verbatim>\<open>JSON.parse\<close>, the MD5/base64 digest, the effect of spawning a command, the CPU count.
  \<^item> Exceptions are values: a computation returns \<open>Inl\<close> of an \<open>error\<close> or \<open>Inr\<close> of its value.
  \<^item> The code is described twice. First every function is given as it runs when nothing
    else runs in between: \<^verbatim>\<open>updateTargets\<close> runs the update of a task it launches to its end
    before it looks at its next target, a command runs when it is submitted, and
    \<^verbatim>\<open>Promise.all\<close> reports the first rejection in the order of the list. This is one of
    the schedules of the promises, and it serves for what a task body or the driver does
    by itself. The section on the event loop then gives the promises as they are: a
    function runs up to its \<^verbatim>\<open>await\<close>, the rest runs in a later turn, and the turns come
    in any order the files and the child processes allow.
  \<^item> \<^verbatim>\<open>updateTargets\<close> is recursive through the tasks it launches. The nesting is bounded
    by the call stack; its depth, counted in nested calls of \<^verbatim>\<open>updateTargets\<close>, is a
    parameter, and a call that does not fit throws a \<^verbatim>\<open>RangeError\<close>.
  \<^item> \<open>trace\<close> is a history variable: it records which task bodies were called, which
    commands were spawned and which hash-cache entries were deleted, in order.
  \<^item> \<^verbatim>\<open>console.log\<close> output is not modelled; \<^verbatim>\<open>console.error\<close>, \<^verbatim>\<open>console.warn\<close> and
    \<^verbatim>\<open>console.assert\<close> append to \<open>stderr\<close>.
\<close>

subsection \<open>Data\<close>

type_synonym target = string
type_synonym command = "string list"

text \<open>
  The values that occur in keys. \<open>JInherited name\<close> is the value \<^verbatim>\<open>Object.prototype\<close> holds
  under \<open>name\<close> (a function, or for \<^verbatim>\<open>__proto__\<close> the prototype itself).
\<close>

datatype json = JNull | JBool bool | JNum int | JStr string | JArr "json list"
  | JObj "(string \<times> json) list" | JInherited string

datatype error = BuildError string | InternalError string

datatype proc_result = Exited nat | Killed | SpawnError string

datatype event = Body nat | Spawn command | Invalidate string

datatype errline = FAILED string | AssertionFailed | LoadWarning

text \<open>The variables a task closure captures, for the three rule builders.\<close>

datatype kind =
    Rule "target list" "target list" "command list"
  | Cpp string string "target list" command command
  | Link string "target list" command

record task =
  label :: string
  kind :: kind
  keyFn :: bool
  cachedKey :: "json option"
  pending :: "(error + unit) option"
  requested_by :: "string option"

record env =
  stringify :: "json \<Rightarrow> string"
  parse :: "string \<Rightarrow> json option"
  md5_base64 :: "string \<Rightarrow> string"
  spawn :: "command \<Rightarrow> (string \<rightharpoonup> string) \<Rightarrow> proc_result \<times> (string \<rightharpoonup> string)"
  cpus :: nat

record state =
  tasks :: "(target \<times> nat) list"
  heap :: "nat \<Rightarrow> task"
  fresh :: nat
  hashCache :: "string \<rightharpoonup> string"
  hashCacheHits :: nat
  files :: "string \<rightharpoonup> string"
  stderr :: "errline list"
  trace :: "event list"

definition CACHE_FILE :: string where
  "CACHE_FILE = ''maek-cache.json''"

definition JOBS :: "env \<Rightarrow> nat" where
  "JOBS env = cpus env + 1"

text \<open>
  The names of the properties of \<^verbatim>\<open>Object.prototype\<close>, and \<^verbatim>\<open>name in obj\<close> for a plain object
  \<open>obj\<close> given by its own properties.
\<close>

definition object_prototype :: "string list" where
  "object_prototype = [''constructor'', ''__defineGetter__'', ''__defineSetter__'',
     ''hasOwnProperty'', ''__lookupGetter__'', ''__lookupSetter__'', ''isPrototypeOf'',
     ''propertyIsEnumerable'', ''toString'', ''valueOf'', ''__proto__'', ''toLocaleString'']"

definition inherited :: "string \<Rightarrow> bool" where
  "inherited name = (name \<in> set object_prototype)"

definition js_in :: "string \<Rightarrow> (string \<rightharpoonup> 'a) \<Rightarrow> bool" where
  "js_in name obj = (obj name \<noteq> None \<or> inherited name)"

definition plain :: "string \<Rightarrow> bool" where
  "plain name = (\<not> inherited name)"

definition abstract :: "target \<Rightarrow> bool" where
  "abstract target = (case target of [] \<Rightarrow> False | c # _ \<Rightarrow> c = CHR '':'')"

fun join :: "string \<Rightarrow> string list \<Rightarrow> string" where
  "join sep [] = []"
| "join sep [x] = x"
| "join sep (x # y # ys) = x @ sep @ join sep (y # ys)"

fun show_nat :: "nat \<Rightarrow> string" where
  "show_nat n = (if n < 10 then [char_of (48 + n)]
     else show_nat (n div 10) @ [char_of (48 + n mod 10)])"

declare show_nat.simps [simp del]

subsection \<open>The dep-file parser (\<^verbatim>\<open>loadDeps\<close>)\<close>

definition is_space :: "char \<Rightarrow> bool" where
  "is_space c = (c = CHR '' '' \<or> c = CHR 0x09 \<or> c = CHR 0x0A)"

text \<open>\<^verbatim>\<open>tokens[tokens.length-1] += c\<close>\<close>

definition add_last :: "char \<Rightarrow> string list \<Rightarrow> string list" where
  "add_last c tokens = butlast tokens @ [last tokens @ [c]]"

text \<open>\<^verbatim>\<open>if (tokens[tokens.length-1] !== '') tokens.push('')\<close>\<close>

definition start_token :: "string list \<Rightarrow> string list" where
  "start_token tokens = (if last tokens \<noteq> [] then tokens @ [[]] else tokens)"

text \<open>
  The loop over the characters of the text. The first argument is the text from index
  \<open>i\<close> on; \<^verbatim>\<open>text[i+1]\<close> is the second character when there is one.
\<close>

fun tokenize :: "string \<Rightarrow> string list \<Rightarrow> string list" where
  "tokenize [] tokens = tokens"
| "tokenize [c] tokens =
     (if is_space c then start_token tokens else add_last c tokens)"
| "tokenize (c # d # rest) tokens =
     (if is_space c then tokenize (d # rest) (start_token tokens)
      else if c = CHR ''$'' \<and> d = CHR ''$'' then tokenize rest (add_last CHR ''$'' tokens)
      else if c = CHR 0x5C then
        (if d = CHR 0x0A then tokenize (d # rest) tokens
         else tokenize rest (add_last d tokens))
      else tokenize (d # rest) (add_last c tokens))"

text \<open>\<^verbatim>\<open>if (tokens[tokens.length-1] === '') tokens.pop()\<close>\<close>

definition pop_empty :: "string list \<Rightarrow> string list" where
  "pop_empty tokens = (if tokens \<noteq> [] \<and> last tokens = [] then butlast tokens else tokens)"

text \<open>The two \<^verbatim>\<open>console.assert\<close> calls; an index out of range reads \<^verbatim>\<open>undefined\<close>.\<close>

definition assert_header :: "string list \<Rightarrow> errline list" where
  "assert_header tokens =
     (if 0 < length tokens \<and> tokens ! 0 = ''x'' then [] else [AssertionFailed]) @
     (if 1 < length tokens \<and> tokens ! 1 = '':'' then [] else [AssertionFailed])"

text \<open>
  \<^verbatim>\<open>for (const d of depends) inDepends[d] = true\<close>; \<open>deps\<close> is the closure's \<^verbatim>\<open>depends\<close>. (The
  assignment to \<^verbatim>\<open>__proto__\<close> creates no own property; \<open>js_in\<close> holds of that name anyway.)
\<close>

definition inDepends :: "target list \<Rightarrow> (target \<rightharpoonup> bool)" where
  "inDepends deps = fold (\<lambda>d m. m(d \<mapsto> True)) deps Map.empty"

definition loadDeps :: "(string \<rightharpoonup> string) \<Rightarrow> string \<Rightarrow> target list \<Rightarrow> errline list \<times> target list" where
  "loadDeps fs depsFile deps =
     (case fs depsFile of
        None \<Rightarrow> ([], [])
      | Some text \<Rightarrow>
          (let tokens = pop_empty (tokenize text [[]]);
               sorted_tokens = sort (drop 2 tokens);
               extraDepends = filter (\<lambda>target. \<not> js_in target (inDepends deps)) sorted_tokens
           in (assert_header tokens, extraDepends)))"

text \<open>
  The parser as the specification words it: the text is decoded into separators and
  literal characters, and the tokens are the maximal non-empty runs of literal
  characters.
\<close>

datatype item = Sep | Lit char

fun decode :: "string \<Rightarrow> item list" where
  "decode [] = []"
| "decode [c] = (if is_space c then [Sep] else [Lit c])"
| "decode (c # d # rest) =
     (if is_space c then Sep # decode (d # rest)
      else if c = CHR ''$'' \<and> d = CHR ''$'' then Lit CHR ''$'' # decode rest
      else if c = CHR 0x5C \<and> d = CHR 0x0A then Sep # decode rest
      else if c = CHR 0x5C then Lit d # decode rest
      else Lit c # decode (d # rest))"

fun runs :: "item list \<Rightarrow> string \<Rightarrow> string list" where
  "runs [] cur = (if cur = [] then [] else [cur])"
| "runs (Sep # items) cur = (if cur = [] then runs items [] else cur # runs items [])"
| "runs (Lit c # items) cur = runs items (cur @ [c])"

definition spec_tokens :: "string \<Rightarrow> string list" where
  "spec_tokens text = runs (decode text) []"

subsection \<open>The hasher (\<^verbatim>\<open>hashFiles\<close>)\<close>

text \<open>What \<^verbatim>\<open>fs.readFile\<close>'s callback resolves the promise to.\<close>

definition hash_record :: "env \<Rightarrow> (string \<rightharpoonup> string) \<Rightarrow> string \<Rightarrow> string" where
  "hash_record env fs file =
     (case fs file of
        None \<Rightarrow> file @ '':x''
      | Some data \<Rightarrow> file @ '':'' @ md5_base64 env data)"

text \<open>
  What \<^verbatim>\<open>hashFile\<close> returns: a record, or, when \<^verbatim>\<open>file in hashCache\<close> holds of a name that
  \<^verbatim>\<open>hashCache\<close> only inherits, the value \<^verbatim>\<open>hashCache[file]\<close> of the inherited property.
\<close>

datatype hashval = Record string | Proto string

definition hash_json :: "hashval \<Rightarrow> json" where
  "hash_json v = (case v of Record r \<Rightarrow> JStr r | Proto name \<Rightarrow> JInherited name)"

text \<open>
  \<^verbatim>\<open>hashFile\<close> runs in two parts. \<^verbatim>\<open>files.map(hashFile)\<close> runs every call up to its first
  \<^verbatim>\<open>await\<close>: the test \<^verbatim>\<open>file in hashCache\<close>, which when it holds counts a hit and returns
  \<^verbatim>\<open>hashCache[file]\<close>. The calls that missed then continue, one after the other: each reads
  the file, stores the record in \<^verbatim>\<open>hashCache\<close> and returns it.
\<close>

datatype hashing = Hit hashval | Reading string

definition hashFile_start :: "string \<Rightarrow> state \<Rightarrow> hashing \<times> state" where
  "hashFile_start file st =
     (if js_in file (hashCache st) then
        (Hit (case hashCache st file of Some h \<Rightarrow> Record h | None \<Rightarrow> Proto file),
         st\<lparr>hashCacheHits := hashCacheHits st + 1\<rparr>)
      else (Reading file, st))"

definition hashFile_finish :: "env \<Rightarrow> hashing \<Rightarrow> state \<Rightarrow> hashval \<times> state" where
  "hashFile_finish env h st =
     (case h of
        Hit r \<Rightarrow> (r, st)
      | Reading file \<Rightarrow>
          (let hash = hash_record env (files st) file
           in (Record hash, st\<lparr>hashCache := (hashCache st)(file \<mapsto> hash)\<rparr>)))"

fun start_all :: "string list \<Rightarrow> state \<Rightarrow> hashing list \<times> state" where
  "start_all [] st = ([], st)"
| "start_all (file # rest) st =
     (case hashFile_start file st of
        (h, st1) \<Rightarrow> (case start_all rest st1 of (hs, st2) \<Rightarrow> (h # hs, st2)))"

fun finish_all :: "env \<Rightarrow> hashing list \<Rightarrow> state \<Rightarrow> hashval list \<times> state" where
  "finish_all env [] st = ([], st)"
| "finish_all env (h # rest) st =
     (case hashFile_finish env h st of
        (r, st1) \<Rightarrow> (case finish_all env rest st1 of (rs, st2) \<Rightarrow> (r # rs, st2)))"

definition hashFiles :: "env \<Rightarrow> target list \<Rightarrow> state \<Rightarrow> hashval list \<times> state" where
  "hashFiles env targets st =
     (let fs = filter (\<lambda>target. \<not> abstract target) targets
      in case start_all fs st of (hs, st1) \<Rightarrow> finish_all env hs st1)"


subsection \<open>The job limiter (\<^verbatim>\<open>job\<close>)\<close>

text \<open>
  The limiter is a transition system. \<open>job_active\<close> and \<open>job_pending\<close> are the two
  properties of the function object \<^verbatim>\<open>job\<close>; \<open>ticks\<close> counts the \<^verbatim>\<open>schedule\<close> callbacks that
  \<^verbatim>\<open>process.nextTick\<close> holds; \<open>running\<close> lists the jobs whose \<^verbatim>\<open>jobFn\<close> has been called and
  has not settled yet (for \<^verbatim>\<open>runCommand\<close>, the live child processes). \<open>submitted\<close> and
  \<open>started\<close> are history variables.
\<close>

record 'j limiter =
  job_active :: nat
  job_pending :: "'j list"
  ticks :: nat
  running :: "'j list"
  submitted :: "'j list"
  started :: "'j list"

definition idle :: "'j limiter" where
  "idle = \<lparr>job_active = 0, job_pending = [], ticks = 0, running = [], submitted = [],
     started = []\<rparr>"

text \<open>\<^verbatim>\<open>job(jobFn)\<close>: \<^verbatim>\<open>process.nextTick(schedule)\<close>, then push onto the queue.\<close>

definition job :: "'j \<Rightarrow> 'j limiter \<Rightarrow> 'j limiter" where
  "job jobFn s = s\<lparr>ticks := ticks s + 1, job_pending := job_pending s @ [jobFn],
     submitted := submitted s @ [jobFn]\<rparr>"

text \<open>\<^verbatim>\<open>schedule\<close> up to its \<^verbatim>\<open>await\<close>: it calls \<^verbatim>\<open>next.jobFn()\<close>.\<close>

definition schedule :: "nat \<Rightarrow> 'j limiter \<Rightarrow> 'j limiter" where
  "schedule jobs s =
     (if job_active s < jobs \<and> job_pending s \<noteq> [] then
        s\<lparr>job_active := job_active s + 1, job_pending := tl (job_pending s),
          running := running s @ [hd (job_pending s)],
          started := started s @ [hd (job_pending s)]\<rparr>
      else s)"

text \<open>\<^verbatim>\<open>schedule\<close> after its \<^verbatim>\<open>await\<close>, once the job has settled.\<close>

definition settle :: "'j \<Rightarrow> 'j limiter \<Rightarrow> 'j limiter" where
  "settle jobFn s = s\<lparr>running := remove1 jobFn (running s), job_active := job_active s - 1,
     ticks := ticks s + 1\<rparr>"

datatype 'j action = Submit 'j | Tick | Settle 'j

fun step :: "nat \<Rightarrow> 'j limiter \<Rightarrow> 'j action \<Rightarrow> 'j limiter" where
  "step jobs s (Submit jobFn) = job jobFn s"
| "step jobs s Tick = (if 0 < ticks s then schedule jobs (s\<lparr>ticks := ticks s - 1\<rparr>) else s)"
| "step jobs s (Settle jobFn) = (if jobFn \<in> set (running s) then settle jobFn s else s)"

definition run_limiter :: "env \<Rightarrow> 'j action list \<Rightarrow> 'j limiter" where
  "run_limiter env actions = foldl (step (JOBS env)) idle actions"

subsection \<open>Running commands\<close>

definition special_chars :: "char list" where
  "special_chars = [CHR '' '', CHR 0x09, CHR 0x0A, CHR ''!'', CHR 0x22, CHR 0x27, CHR ''$'',
     CHR ''&'', CHR ''('', CHR '')'', CHR ''*'', CHR '','', CHR '';'', CHR ''<'', CHR ''>'',
     CHR ''?'', CHR ''['', CHR 0x5C, CHR '']'', CHR ''^'', CHR 0x60, CHR ''{'', CHR ''|'',
     CHR ''}'', CHR ''~'']"

definition needs_quote :: "string \<Rightarrow> bool" where
  "needs_quote token =
     (list_ex (\<lambda>c. c \<in> set special_chars) token \<or>
      (case token of [] \<Rightarrow> False | c # _ \<Rightarrow> c = CHR ''='' \<or> c = CHR ''#''))"

definition quote_token :: "string \<Rightarrow> string" where
  "quote_token token =
     (if needs_quote token then
        [CHR 0x27] @
        concat (map (\<lambda>c. if c = CHR 0x27 then [CHR 0x27, CHR 0x5C, CHR 0x27, CHR 0x27] else [c])
          token) @
        [CHR 0x27]
      else token)"

definition prettyCommand :: "command \<Rightarrow> string" where
  "prettyCommand command =
     fold (\<lambda>token acc. (if acc \<noteq> [] then acc @ '' '' else acc) @ quote_token token) command []"

text \<open>
  \<^verbatim>\<open>runCommand\<close>. In this sequential model a command runs as soon as it is submitted;
  the queueing is the limiter's, above. An empty command makes \<^verbatim>\<open>child_process.spawn\<close>
  throw a \<^verbatim>\<open>TypeError\<close>.
\<close>

definition runCommand :: "env \<Rightarrow> command \<Rightarrow> string \<Rightarrow> state \<Rightarrow> (error + unit) \<times> state" where
  "runCommand env command message st =
     (if command = [] then (Inl (InternalError ''ERR_INVALID_ARG_TYPE''), st)
      else
        (case spawn env command (files st) of
           (r, fs) \<Rightarrow>
             (let st1 = st\<lparr>files := fs, trace := trace st @ [Spawn command]\<rparr>
              in case r of
                   Exited code \<Rightarrow>
                     if code \<noteq> 0 then
                       (Inl (BuildError (''command exited with code '' @ show_nat code @ ''.'' @
                          [CHR 0x0A] @ ''  '' @ prettyCommand command)), st1)
                     else (Inr (), st1)
                 | Killed \<Rightarrow>
                     (Inl (BuildError (''command exited with code null.'' @
                        [CHR 0x0A] @ ''  '' @ prettyCommand command)), st1)
                 | SpawnError msg \<Rightarrow>
                     (Inl (BuildError (''command error ('' @ msg @ '').'' @
                        [CHR 0x0A] @ ''  '' @ prettyCommand command)), st1))))"

text \<open>The loop over the recipe of a \<^verbatim>\<open>RULE\<close> task; \<open>n\<close> is \<^verbatim>\<open>recipe.length\<close>.\<close>

fun runRecipe :: "env \<Rightarrow> string \<Rightarrow> nat \<Rightarrow> nat \<Rightarrow> command list \<Rightarrow> state \<Rightarrow> (error + unit) \<times> state" where
  "runRecipe env lbl n step_no [] st = (Inr (), st)"
| "runRecipe env lbl n step_no (command # rest) st =
     (case runCommand env command
        (lbl @ '' ('' @ show_nat step_no @ ''/'' @ show_nat n @ '')'') st of
        (Inl e, st1) \<Rightarrow> (Inl e, st1)
      | (Inr u, st1) \<Rightarrow> runRecipe env lbl n (step_no + 1) rest st1)"

text \<open>\<^verbatim>\<open>delete hashCache[file]\<close>\<close>

definition invalidate :: "string \<Rightarrow> state \<Rightarrow> state" where
  "invalidate file st =
     st\<lparr>hashCache := (hashCache st)(file := None), trace := trace st @ [Invalidate file]\<rparr>"

subsection \<open>\<^verbatim>\<open>assertNontargets\<close>\<close>

text \<open>The test in the loop is \<^verbatim>\<open>'target' in maek.tasks\<close>, with the quotes.\<close>

definition assertNontargets :: "target list \<Rightarrow> string \<Rightarrow> state \<Rightarrow> error + unit" where
  "assertNontargets prerequisites ruleName st =
     (let errorFiles = filter (\<lambda>target. map_of (tasks st) ''target'' \<noteq> None) prerequisites
      in if errorFiles \<noteq> [] then
           Inl (BuildError
             (''the following *generated* files are required but not mentioned as dependancies:'' @
              [CHR 0x0A] @ ''  '' @ join ([CHR 0x0A] @ ''  '') errorFiles))
         else Inr ())"

subsection \<open>Task bodies and key functions\<close>

type_synonym updater = "target list \<Rightarrow> string \<Rightarrow> state \<Rightarrow> ((error + unit) \<times> state) option"

definition cmd_json :: "command \<Rightarrow> json" where
  "cmd_json command = JArr (map JStr command)"

text \<open>
  \<open>taskBody upd env t\<close> is the call \<^verbatim>\<open>task()\<close> and \<open>taskKey upd env t\<close> is \<^verbatim>\<open>task.keyFn()\<close>, for
  the closure \<open>t\<close>; \<open>upd\<close> is \<^verbatim>\<open>updateTargets\<close>. A result \<open>None\<close> is a call that does not
  return.
\<close>

definition taskBody :: "updater \<Rightarrow> env \<Rightarrow> task \<Rightarrow> state \<Rightarrow> ((error + unit) \<times> state) option" where
  "taskBody upd env t st =
     (case kind t of
        Rule targets prerequisites recipe \<Rightarrow>
          (case upd prerequisites (label t) st of
             None \<Rightarrow> None
           | Some (Inl e, st1) \<Rightarrow> Some (Inl e, st1)
           | Some (Inr u, st1) \<Rightarrow>
               (case runRecipe env (label t) (length recipe) 1 recipe st1 of
                  (Inl e, st2) \<Rightarrow> Some (Inl e, st2)
                | (Inr u, st2) \<Rightarrow> Some (Inr (), fold invalidate targets st2)))
      | Cpp objFile depsFile deps objCommand depsCommand \<Rightarrow>
          (case upd deps (label t) st of
             None \<Rightarrow> None
           | Some (Inl e, st1) \<Rightarrow> Some (Inl e, st1)
           | Some (Inr u, st1) \<Rightarrow>
               (case runCommand env objCommand (label t @ '': compile'')
                       (invalidate objFile st1) of
                  (Inl e, st2) \<Rightarrow> Some (Inl e, st2)
                | (Inr u, st2) \<Rightarrow>
                    (case runCommand env depsCommand (label t @ '': prerequisites'')
                            (invalidate depsFile st2) of
                       (Inl e, st3) \<Rightarrow> Some (Inl e, st3)
                     | (Inr u, st3) \<Rightarrow>
                         (case loadDeps (files st3) depsFile deps of
                            (asserts, extraDepends) \<Rightarrow>
                              (let st4 = st3\<lparr>stderr := stderr st3 @ asserts\<rparr>
                               in Some (assertNontargets extraDepends (label t) st4, st4))))))
      | Link exeFile deps linkCommand \<Rightarrow>
          (case upd deps (label t) st of
             None \<Rightarrow> None
           | Some (Inl e, st1) \<Rightarrow> Some (Inl e, st1)
           | Some (Inr u, st1) \<Rightarrow>
               Some (runCommand env linkCommand (label t @ '': link'') (invalidate exeFile st1))))"

definition taskKey :: "updater \<Rightarrow> env \<Rightarrow> task \<Rightarrow> state \<Rightarrow> ((error + json) \<times> state) option" where
  "taskKey upd env t st =
     (case kind t of
        Rule targets prerequisites recipe \<Rightarrow>
          (case upd prerequisites (label t @ '' (keyFn)'') st of
             None \<Rightarrow> None
           | Some (Inl e, st1) \<Rightarrow> Some (Inl e, st1)
           | Some (Inr u, st1) \<Rightarrow>
               (case hashFiles env (targets @ prerequisites) st1 of
                  (hs, st2) \<Rightarrow> Some (Inr (JArr (map cmd_json recipe @ map hash_json hs)), st2)))
      | Cpp objFile depsFile deps objCommand depsCommand \<Rightarrow>
          (case upd deps (label t @ '' (keyFn)'') st of
             None \<Rightarrow> None
           | Some (Inl e, st1) \<Rightarrow> Some (Inl e, st1)
           | Some (Inr u, st1) \<Rightarrow>
               (case loadDeps (files st1) depsFile deps of
                  (asserts, extraDepends) \<Rightarrow>
                    (let st2 = st1\<lparr>stderr := stderr st1 @ asserts\<rparr>
                     in case assertNontargets extraDepends (label t) st2 of
                          Inl e \<Rightarrow> Some (Inl e, st2)
                        | Inr u \<Rightarrow>
                            (case hashFiles env ([objFile, depsFile] @ deps @ extraDepends) st2 of
                               (hs, st3) \<Rightarrow>
                                 Some (Inr (JArr ([cmd_json objCommand, cmd_json depsCommand] @
                                    map hash_json hs)), st3)))))
      | Link exeFile deps linkCommand \<Rightarrow>
          (case upd deps (label t @ '' (keyFn)'') st of
             None \<Rightarrow> None
           | Some (Inl e, st1) \<Rightarrow> Some (Inl e, st1)
           | Some (Inr u, st1) \<Rightarrow>
               (case hashFiles env (exeFile # deps) st1 of
                  (hs, st2) \<Rightarrow> Some (Inr (JArr (cmd_json linkCommand # map hash_json hs)), st2))))"

subsection \<open>The target resolver (\<^verbatim>\<open>updateTargets\<close>)\<close>

text \<open>The \<^verbatim>\<open>catch\<close> clause of the update of one task.\<close>

definition catch_error :: "string \<Rightarrow> string \<Rightarrow> error \<Rightarrow> state \<Rightarrow> (error + unit) \<times> state" where
  "catch_error lbl frm e st =
     (case e of
        BuildError m \<Rightarrow>
          (Inl (BuildError ''prerequisite failed.''),
           st\<lparr>stderr := stderr st @ [FAILED (lbl @ '' (requested by '' @ frm @ ''): '' @ m)]\<rparr>)
      | InternalError m \<Rightarrow> (Inl e, st))"

definition set_cachedKey :: "nat \<Rightarrow> json \<Rightarrow> state \<Rightarrow> state" where
  "set_cachedKey tid key st = st\<lparr>heap := (heap st)(tid := (heap st tid)\<lparr>cachedKey := Some key\<rparr>)\<rparr>"

text \<open>From \<^verbatim>\<open>await task()\<close> on: the task is run, then its key is stored.\<close>

definition run_and_store :: "updater \<Rightarrow> env \<Rightarrow> string \<Rightarrow> nat \<Rightarrow> task \<Rightarrow> state \<Rightarrow> ((error + unit) \<times> state) option" where
  "run_and_store upd env frm tid t st =
     (case taskBody upd env t (st\<lparr>trace := trace st @ [Body tid]\<rparr>) of
        None \<Rightarrow> None
      | Some (Inl e, st1) \<Rightarrow> Some (catch_error (label t) frm e st1)
      | Some (Inr u, st1) \<Rightarrow>
          if keyFn t then
            (case taskKey upd env t st1 of
               None \<Rightarrow> None
             | Some (Inl e, st2) \<Rightarrow> Some (catch_error (label t) frm e st2)
             | Some (Inr key, st2) \<Rightarrow> Some (Inr (), set_cachedKey tid key st2))
          else Some (Inr (), st1))"

text \<open>The body of the promise stored in \<^verbatim>\<open>task.pending\<close>.\<close>

definition pendingBody :: "updater \<Rightarrow> env \<Rightarrow> string \<Rightarrow> nat \<Rightarrow> state \<Rightarrow> ((error + unit) \<times> state) option" where
  "pendingBody upd env frm tid st =
     (let t = heap st tid
      in if cachedKey t \<noteq> None \<and> keyFn t then
           (case taskKey upd env t st of
              None \<Rightarrow> None
            | Some (Inl e, st1) \<Rightarrow> Some (catch_error (label t) frm e st1)
            | Some (Inr key, st1) \<Rightarrow>
                if Some (stringify env key) = map_option (stringify env) (cachedKey (heap st1 tid))
                then Some (Inr (), st1)
                else run_and_store upd env frm tid t st1)
         else run_and_store upd env frm tid t st)"

definition set_from :: "nat \<Rightarrow> string \<Rightarrow> state \<Rightarrow> state" where
  "set_from tid frm st = st\<lparr>heap := (heap st)(tid := (heap st tid)\<lparr>requested_by := Some frm\<rparr>)\<rparr>"

definition set_pending :: "nat \<Rightarrow> error + unit \<Rightarrow> state \<Rightarrow> state" where
  "set_pending tid p st = st\<lparr>heap := (heap st)(tid := (heap st tid)\<lparr>pending := Some p\<rparr>)\<rparr>"

text \<open>\<^verbatim>\<open>fsPromises.access(target, fs.constants.R_OK)\<close> and its \<^verbatim>\<open>catch\<close>.\<close>

definition access :: "target \<Rightarrow> string \<Rightarrow> state \<Rightarrow> error + unit" where
  "access target frm st =
     (if files st target = None then
        Inl (BuildError (''Target '' @ [CHR 0x27] @ target @ [CHR 0x27] @ '' (requested by '' @
          frm @ '') doesn'' @ [CHR 0x27] @ ''t exist and doesn'' @ [CHR 0x27] @
          ''t have a task to make it.''))
      else Inr ())"

text \<open>
  The loop of \<^verbatim>\<open>updateTargets\<close>. The promises it collects are represented by their
  outcomes: the update of a task that is launched runs to its end before the loop goes
  on, and \<^verbatim>\<open>task.pending\<close> is assigned when it has returned.
\<close>

fun updateLoop :: "updater \<Rightarrow> env \<Rightarrow> string \<Rightarrow> target list \<Rightarrow> (error + unit) list \<Rightarrow> state \<Rightarrow>
    ((error + (error + unit) list) \<times> state) option" where
  "updateLoop upd env frm [] pend st = Some (Inr pend, st)"
| "updateLoop upd env frm (target # rest) pend st =
     (case map_of (tasks st) target of
        Some tid \<Rightarrow>
          (case pending (heap st tid) of
             Some p \<Rightarrow> updateLoop upd env frm rest (pend @ [p]) st
           | None \<Rightarrow>
               (case pendingBody upd env frm tid (set_from tid frm st) of
                  None \<Rightarrow> None
                | Some (p, st1) \<Rightarrow>
                    updateLoop upd env frm rest (pend @ [p]) (set_pending tid p st1)))
      | None \<Rightarrow>
          if abstract target then
            Some (Inl (BuildError (''Target '' @ [CHR 0x27] @ target @ [CHR 0x27] @
              '' (requested by '' @ frm @ '') is abstract but doesn'' @ [CHR 0x27] @
              ''t have a task.'')), st)
          else updateLoop upd env frm rest (pend @ [access target frm st]) st)"

text \<open>\<^verbatim>\<open>await Promise.all(pending)\<close>: the first rejection in the list, if there is one.\<close>

fun promise_all :: "(error + unit) list \<Rightarrow> error + unit" where
  "promise_all [] = Inr ()"
| "promise_all (Inl e # rest) = Inl e"
| "promise_all (Inr u # rest) = promise_all rest"

text \<open>
  \<^verbatim>\<open>updateTargets\<close> calls itself through the tasks it launches; the nesting depth is bounded
  by the first argument, and a call that needs more throws a \<^verbatim>\<open>RangeError\<close>.
\<close>

primrec updateTargets :: "env \<Rightarrow> nat \<Rightarrow> updater" where
  "updateTargets env 0 = (\<lambda>targets frm st. Some (Inl (InternalError ''RangeError''), st))"
| "updateTargets env (Suc n) = (\<lambda>targets frm st.
     case updateLoop (updateTargets env n) env frm targets [] st of
       None \<Rightarrow> None
     | Some (Inl e, st1) \<Rightarrow> Some (Inl e, st1)
     | Some (Inr pend, st1) \<Rightarrow> Some (promise_all pend, st1))"

subsection \<open>Build rules\<close>

definition quoted_list :: "string list \<Rightarrow> string" where
  "quoted_list xs = [CHR 0x27] @ join ([CHR 0x27] @ '', '' @ [CHR 0x27]) xs @ [CHR 0x27]"

definition new_task :: "string \<Rightarrow> kind \<Rightarrow> bool \<Rightarrow> task" where
  "new_task lbl k has_keyFn =
     \<lparr>label = lbl, kind = k, keyFn = has_keyFn, cachedKey = None, pending = None,
      requested_by = None\<rparr>"

text \<open>A new task object, registered as \<^verbatim>\<open>maek.tasks[target]\<close> for each of the targets.\<close>

definition register :: "task \<Rightarrow> target list \<Rightarrow> state \<Rightarrow> state" where
  "register t targets st =
     st\<lparr>heap := (heap st)(fresh st := t), fresh := Suc (fresh st),
        tasks := fold (\<lambda>target reg. AList.update target (fresh st) reg) targets (tasks st)\<rparr>"

definition RULE :: "target list \<Rightarrow> target list \<Rightarrow> command list \<Rightarrow> state \<Rightarrow> state" where
  "RULE targets prerequisites recipe st =
     register
       (new_task (''RULE '' @ quoted_list prerequisites @ '' -> '' @ quoted_list targets)
          (Rule targets prerequisites recipe) (\<not> list_ex abstract targets))
       targets st"

datatype os = Linux | Macos | Windows

record options =
  objPrefix :: string
  objSuffix :: string
  exeSuffix :: string
  depends :: "target list"
  CPPFlags :: "string list"
  LINKLibs :: "string list"

definition DEFAULT_OPTIONS :: "os \<Rightarrow> options" where
  "DEFAULT_OPTIONS OS =
     \<lparr>objPrefix = ''objs/'', objSuffix = (if OS = Windows then ''.obj'' else ''.o''),
      exeSuffix = (if OS = Windows then ''.exe'' else []), depends = [], CPPFlags = [],
      LINKLibs = []\<rparr>"

text \<open>
  \<^verbatim>\<open>maek.CPP\<close> and \<^verbatim>\<open>maek.LINK\<close>, with the options already combined and \<^verbatim>\<open>objFileBase\<close> given.
  They return the name of the file the task makes.
\<close>

definition CPP :: "os \<Rightarrow> options \<Rightarrow> string \<Rightarrow> string \<Rightarrow> state \<Rightarrow> error + string \<times> state" where
  "CPP OS opts cppFile objFileBase st =
     (let objFile = objFileBase @ objSuffix opts;
          depsFile = objFileBase @ ''.d'';
          deps = cppFile # depends opts;
          cc = [if OS = Linux then ''g++'' else ''clang++'', ''-std=c++20'', ''-Wall'', ''-Werror'',
                ''-g''] @ CPPFlags opts;
          depsCommand = cc @ [''-E'', ''-M'', ''-MG'', ''-MT'', ''x '', ''-MF'', depsFile, cppFile];
          objCommand = cc @ [''-c'', ''-o'', objFile, cppFile]
      in if OS = Windows then Inl (InternalError ''TODO: write CPP rule for windows.'')
         else Inr (objFile,
           register
             (new_task (''CPP '' @ quoted_list deps @ '' -> '' @ [CHR 0x27] @ objFile @ [CHR 0x27])
                (Cpp objFile depsFile deps objCommand depsCommand) True)
             [objFile] st))"


subsection \<open>The driver (\<^verbatim>\<open>maek.update\<close>)\<close>

text \<open>The state of a process in which no rule has been called yet.\<close>

definition init_maek :: "(string \<rightharpoonup> string) \<Rightarrow> state" where
  "init_maek fs =
     \<lparr>tasks = [], heap = (\<lambda>i. new_task [] (Rule [] [] []) False), fresh = 0,
      hashCache = Map.empty, hashCacheHits = 0, files = fs, stderr = [], trace = []\<rparr>"

definition clear_cachedKeys :: "state \<Rightarrow> state" where
  "clear_cachedKeys st =
     st\<lparr>heap := (\<lambda>i. if i \<in> set (map snd (tasks st)) then (heap st i)\<lparr>cachedKey := None\<rparr>
                     else heap st i)\<rparr>"

text \<open>
  \<^verbatim>\<open>Object.keys\<close> of the parsed cache and the values under them, in order; on \<^verbatim>\<open>null\<close> the
  call throws.
\<close>

definition object_entries :: "json \<Rightarrow> (string \<times> json) list option" where
  "object_entries cache =
     (case cache of
        JObj kvs \<Rightarrow> Some kvs
      | JArr xs \<Rightarrow> Some (zip (map show_nat [0..<length xs]) xs)
      | JStr s \<Rightarrow> Some (zip (map show_nat [0..<length s]) (map (\<lambda>c. JStr [c]) s))
      | JNum n \<Rightarrow> Some []
      | JBool b \<Rightarrow> Some []
      | JNull \<Rightarrow> None)"

definition assign_cachedKey :: "target \<times> json \<Rightarrow> state \<Rightarrow> state" where
  "assign_cachedKey entry st =
     (case map_of (tasks st) (fst entry) of
        Some tid \<Rightarrow> set_cachedKey tid (snd entry) st
      | None \<Rightarrow> st)"

definition load_cache :: "env \<Rightarrow> state \<Rightarrow> state" where
  "load_cache env st =
     (case files st CACHE_FILE of
        None \<Rightarrow> st
      | Some text \<Rightarrow>
          (case Option.bind (parse env text) object_entries of
             None \<Rightarrow> st\<lparr>stderr := stderr st @ [LoadWarning]\<rparr>
           | Some entries \<Rightarrow> fold assign_cachedKey entries st))"

definition cache_object :: "state \<Rightarrow> (string \<times> json) list" where
  "cache_object st =
     List.map_filter (\<lambda>entry. map_option (Pair (fst entry)) (cachedKey (heap st (snd entry))))
       (tasks st)"

definition store_cache :: "env \<Rightarrow> state \<Rightarrow> state" where
  "store_cache env st = st\<lparr>files := (files st)(CACHE_FILE \<mapsto> stringify env (JObj (cache_object st)))\<rparr>"

datatype exit = Returned | Exit1 | Uncaught error

definition update :: "env \<Rightarrow> nat \<Rightarrow> target list \<Rightarrow> state \<Rightarrow> (exit \<times> state) option" where
  "update env n targets st =
     (case updateTargets env n targets ''user'' (load_cache env (clear_cachedKeys st)) of
        None \<Rightarrow> None
      | Some (Inl (BuildError m), st1) \<Rightarrow> Some (Exit1, st1\<lparr>stderr := stderr st1 @ [FAILED m]\<rparr>)
      | Some (Inl (InternalError m), st1) \<Rightarrow> Some (Uncaught (InternalError m), st1)
      | Some (Inr u, st1) \<Rightarrow> Some (Returned, store_cache env st1))"

subsection \<open>The event loop\<close>

text \<open>
  The promises as Node runs them. A call of an \<^verbatim>\<open>async\<close> function runs until its first
  \<^verbatim>\<open>await\<close> and returns a promise; what follows the \<^verbatim>\<open>await\<close> runs in a later turn of the
  event loop, once the awaited promise has settled.

  \<^item> The property \<^verbatim>\<open>task.pending\<close> is the map \<open>handle\<close>, from task objects to promises
    (numbers). The promise is described by an \<open>activation\<close>: the task, the \<^verbatim>\<open>from\<close> of the
    call that launched it, the place the function has reached (it checks the key,
    works on the body, or computes the key to store), the statements of the body or of
    the key function that remain, the local \<^verbatim>\<open>extraDepends\<close>, and what is awaited;
    \<open>WDone\<close> is a settled promise. The field \<open>pending\<close> of a task record belongs to the
    description above, which holds the outcome there.
  \<^item> The body and the key function of each of the three rules start with
    \<^verbatim>\<open>await updateTargets(...)\<close> on the explicit prerequisites; the statements after it are
    the lists \<open>body_rest\<close> and \<open>key_rest\<close>, and \<open>key_prefix\<close> is the part of the key that
    does not come from \<^verbatim>\<open>hashFiles\<close>.
  \<^item> \<open>requestTargets\<close> is \<^verbatim>\<open>updateTargets\<close> up to its \<^verbatim>\<open>await Promise.all(pending)\<close>: the loop
    over the targets, which launches every task that has no \<^verbatim>\<open>pending\<close>. Launching runs
    the function up to its first \<^verbatim>\<open>await\<close>, which is in the nested call of \<^verbatim>\<open>updateTargets\<close>
    for the prerequisites, and only then is \<^verbatim>\<open>task.pending\<close> assigned. Its first argument
    is the depth of stack that is left.
  \<^item> A step of the loop is a \<open>choice\<close>: an activation continues after what it awaited
    (\<open>Resume\<close>; for \<^verbatim>\<open>Promise.all\<close> the number is the index of the rejection that is
    reported, when there is one), an \<^verbatim>\<open>fsPromises.access\<close> completes (\<open>AccessDone\<close>), a file
    is read (\<open>Fetch\<close>), \<^verbatim>\<open>hashFile\<close> continues after its read and stores the record
    (\<open>StoreHash\<close>), the job limiter's \<^verbatim>\<open>schedule\<close> runs (\<open>Turn\<close>), a child process exits
    (\<open>ProcExit\<close>); \<open>ResumeRoot\<close> and \<open>AccessRoot\<close> are the first two for the promise
    \<^verbatim>\<open>maek.update\<close> awaits. A step that is not enabled changes nothing. Every order of
    steps is a run of the model; the orders of Node's queues are among them.
  \<^item> A continuation that only hands a settled value on (from \<^verbatim>\<open>task()\<close> to the function that
    awaits it, from the exit of a process to \<^verbatim>\<open>schedule\<close>) is run together with the step
    that produces the value.
  \<^item> A child process changes the file system when it exits; \<open>Spawn\<close> is recorded when it
    starts.
  \<^item> When \<^verbatim>\<open>maek.update\<close> has finished, with \<^verbatim>\<open>process.exit\<close>, an uncaught error or
    normally, the loop stops.
\<close>

text \<open>The targets a task updates before anything else: its explicit prerequisites.\<close>

definition prereqs_of :: "kind \<Rightarrow> target list" where
  "prereqs_of k =
     (case k of
        Rule targets prerequisites recipe \<Rightarrow> prerequisites
      | Cpp objFile depsFile deps objCommand depsCommand \<Rightarrow> deps
      | Link exeFile deps linkCommand \<Rightarrow> deps)"

text \<open>An element of the array \<^verbatim>\<open>pending\<close> of \<^verbatim>\<open>updateTargets\<close>.\<close>

datatype await = OnTask nat | OnAccess target string "(error + unit) option"

text \<open>A call of \<^verbatim>\<open>hashFile\<close>: returned, reading, or read and about to store.\<close>

datatype hstate = HDone hashval | HReading string | HFetched string string

text \<open>What an activation awaits.\<close>

datatype waiting =
    WTargets "await list"
  | WThrown error
  | WMkdir
  | WJob nat
  | WLoad "string option option"
  | WHash "hstate list"
  | WDone "error + unit"

datatype instr = Delete string | Mkdir | Run command | Load | Assert | Hash "target list"

datatype stage = Check | Work | Store

record activation =
  a_task :: nat
  a_from :: string
  a_stage :: stage
  a_rest :: "instr list"
  a_extra :: "target list"
  a_wait :: waiting

record mstate =
  base :: state
  handle :: "nat \<rightharpoonup> nat"
  procs :: "nat \<rightharpoonup> activation"
  next_pid :: nat
  lim :: "nat limiter"
  cmds :: "nat \<Rightarrow> command"
  job_result :: "nat \<rightharpoonup> (error + unit)"
  next_job :: nat
  root :: waiting
  result :: "exit option"








































subsection \<open>Auxiliary notions for the statements\<close>

text \<open>
  What \<^verbatim>\<open>hashFile\<close> returns for a file: the entry of \<^verbatim>\<open>hashCache\<close> when there is one, the
  inherited property when \<^verbatim>\<open>hashCache\<close> inherits one of that name, and otherwise what
  reading the file gives.
\<close>

definition cached_or_read :: "env \<Rightarrow> state \<Rightarrow> string \<Rightarrow> hashval" where
  "cached_or_read env st file =
     (case hashCache st file of
        Some h \<Rightarrow> Record h
      | None \<Rightarrow>
          if inherited file then Proto file
          else (case files st file of
                  None \<Rightarrow> Record (file @ '':x'')
                | Some data \<Rightarrow> Record (file @ '':'' @ md5_base64 env data)))"

definition store_reading :: "env \<Rightarrow> (string \<rightharpoonup> string) \<Rightarrow> hashing \<Rightarrow> (string \<rightharpoonup> string) \<Rightarrow> (string \<rightharpoonup> string)" where
  "store_reading env fs h hc = (case h of Hit r \<Rightarrow> hc | Reading f \<Rightarrow> hc(f \<mapsto> hash_record env fs f))"

text \<open>The invariant of the job limiter.\<close>

definition limiter_inv :: "nat \<Rightarrow> 'j limiter \<Rightarrow> bool" where
  "limiter_inv jobs s =
     (job_active s = length (running s) \<and> length (running s) \<le> jobs \<and>
      submitted s = started s @ job_pending s)"



text \<open>The tasks whose body has been called, in order.\<close>

definition bodies :: "event list \<Rightarrow> nat list" where
  "bodies evs = concat (map (\<lambda>e. case e of Body tid \<Rightarrow> [tid] | _ \<Rightarrow> []) evs)"

subsection \<open>Notions for the single-flight property\<close>

text \<open>
  The prerequisite graph is acyclic when some rank decreases along it: the task of a
  prerequisite has a smaller rank than the task that requires it.
\<close>

definition acyclic_by :: "(nat \<Rightarrow> nat) \<Rightarrow> state \<Rightarrow> bool" where
  "acyclic_by rank st =
     list_all (\<lambda>entry.
       list_all (\<lambda>p. case map_of (tasks st) p of
                        None \<Rightarrow> True
                      | Some tid \<Rightarrow> rank tid < rank (snd entry))
         (prereqs_of (kind (heap st (snd entry)))))
       (tasks st)"

text \<open>The tasks of the targets have a rank below \<open>r\<close>.\<close>

definition bounded :: "(nat \<Rightarrow> nat) \<Rightarrow> nat \<Rightarrow> target list \<Rightarrow> state \<Rightarrow> bool" where
  "bounded rank r targets st =
     list_all (\<lambda>target. case map_of (tasks st) target of
                           None \<Rightarrow> True
                         | Some tid \<Rightarrow> rank tid < r) targets"

text \<open>A task object that \<^verbatim>\<open>maek.tasks\<close> holds.\<close>

definition registered :: "state \<Rightarrow> nat \<Rightarrow> bool" where
  "registered st tid = (tid \<in> snd ` set (tasks st))"

text \<open>Promises are numbered in the order of their creation.\<close>

definition wf_pids :: "mstate \<Rightarrow> bool" where
  "wf_pids m =
     ((\<forall>p. next_pid m \<le> p \<longrightarrow> procs m p = None) \<and>
      (\<forall>x p. handle m x = Some p \<longrightarrow> p < next_pid m))"

text \<open>Launching does not touch the job limiter or the promise of \<^verbatim>\<open>maek.update\<close>.\<close>

definition same_jobs :: "mstate \<Rightarrow> mstate \<Rightarrow> bool" where
  "same_jobs m m' =
     (lim m' = lim m \<and> cmds m' = cmds m \<and> job_result m' = job_result m \<and>
      next_job m' = next_job m \<and> root m' = root m \<and> result m' = result m)"

text \<open>
  What a call of \<open>requestTargets\<close> on targets whose tasks have rank below \<open>r\<close> does: it
  launches tasks that had no \<^verbatim>\<open>pending\<close> and have rank below \<open>r\<close>, each once; \<open>new\<close> are
  the tasks whose body is called at once.
\<close>

definition extends :: "(nat \<Rightarrow> nat) \<Rightarrow> nat \<Rightarrow> mstate \<Rightarrow> mstate \<Rightarrow> bool" where
  "extends rank r m m' =
     (\<exists>new.
        base m' = (base m)\<lparr>trace := trace (base m) @ map Body new\<rparr> \<and>
        distinct new \<and>
        (\<forall>x \<in> set new. handle m x = None \<and> rank x < r \<and> handle m' x \<noteq> None) \<and>
        (\<forall>x. handle m' x \<noteq> handle m x \<longrightarrow>
           handle m x = None \<and> rank x < r \<and> (\<exists>p. handle m' x = Some p \<and> next_pid m \<le> p)) \<and>
        next_pid m \<le> next_pid m' \<and>
        (\<forall>p. p < next_pid m \<longrightarrow> procs m' p = procs m p) \<and>
        (\<forall>p act. next_pid m \<le> p \<longrightarrow> procs m' p = Some act \<longrightarrow>
           handle m' (a_task act) = Some p \<and> registered (base m) (a_task act) \<and>
           (a_stage act = Check \<longrightarrow> a_task act \<notin> set new)) \<and>
        wf_pids m' \<and> same_jobs m m')"






text \<open>The part of the base state the invariant reads.\<close>

definition same_graph :: "state \<Rightarrow> state \<Rightarrow> bool" where
  "same_graph st st' =
     (tasks st' = tasks st \<and> (\<forall>i. kind (heap st' i) = kind (heap st i)) \<and>
      bodies (trace st') = bodies (trace st))"

text \<open>A quiet variant of a state: what the steps before a launch may have changed.\<close>

definition variant :: "mstate \<Rightarrow> mstate \<Rightarrow> bool" where
  "variant m m1 =
     (handle m1 = handle m \<and> procs m1 = procs m \<and> next_pid m1 = next_pid m \<and>
      same_graph (base m) (base m1))"


subsection \<open>A sample environment\<close>

text \<open>
  Concrete stand-ins for the outside world, used to run the model on examples: a
  serialiser without escapes, a parser that rejects everything, reversal as digest, and
  a spawner that knows \<^verbatim>\<open>false\<close>, \<^verbatim>\<open>touch file\<close>, a compiler call (\<^verbatim>\<open>-c -o file\<close> writes the
  file) and a dependency probe (\<^verbatim>\<open>-MF file\<close> writes a dep-file that lists the source and
  \<^verbatim>\<open>gen.h\<close>).
\<close>

primrec render :: "json \<Rightarrow> string" where
  "render JNull = ''null''"
| "render (JBool b) = (if b then ''true'' else ''false'')"
| "render (JNum n) = (if n < 0 then ''-'' else []) @ show_nat (nat (abs n))"
| "render (JStr s) = [CHR 0x22] @ s @ [CHR 0x22]"
| "render (JArr xs) = ''['' @ join '','' (map render xs) @ '']''"
| "render (JObj kvs) =
     ''{'' @ join '','' (map (\<lambda>kv. [CHR 0x22] @ fst kv @ [CHR 0x22] @ '':'' @ snd kv)
       (map (map_prod id render) kvs)) @ ''}''"
| "render (JInherited name) = (if name = ''__proto__'' then ''{}'' else ''null'')"

definition after :: "string \<Rightarrow> command \<Rightarrow> string" where
  "after flag command = (case dropWhile (\<lambda>token. token \<noteq> flag) command of
     _ # file # _ \<Rightarrow> file | _ \<Rightarrow> [])"

definition toy_spawn :: "command \<Rightarrow> (string \<rightharpoonup> string) \<Rightarrow> proc_result \<times> (string \<rightharpoonup> string)" where
  "toy_spawn command fs =
     (if command = [''false''] then (Exited 1, fs)
      else if take 1 command = [''touch''] then (Exited 0, fs(after ''touch'' command \<mapsto> ''made''))
      else if ''-MF'' \<in> set command then
        (Exited 0, fs(after ''-MF'' command \<mapsto> ''x : '' @ last command @ '' gen.h''))
      else if ''-c'' \<in> set command then (Exited 0, fs(after ''-o'' command \<mapsto> ''object''))
      else (Exited 0, fs))"

definition toy_env :: env where
  "toy_env = \<lparr>stringify = render, parse = (\<lambda>s. None), md5_base64 = rev, spawn = toy_spawn,
     cpus = 3\<rparr>"

subsection \<open>Sample inputs\<close>

text \<open>A dep-file with an escaped space, a line continuation and a doubled dollar.\<close>

definition dep_text :: string where
  "dep_text = ''x : a.cpp inc/b'' @ [CHR 0x5C] @ '' c.h '' @ [CHR 0x5C, CHR 0x0A] @
     ''  $$d.h a.h'' @ [CHR 0x0A]"

text \<open>A rule that makes \<^verbatim>\<open>out\<close> from \<^verbatim>\<open>in\<close>.\<close>

definition st_rule :: state where
  "st_rule = RULE [''out''] [''in''] [[''touch'', ''out'']] (init_maek [''in'' \<mapsto> ''source''])"

text \<open>
  The same rule in a later process: \<^verbatim>\<open>out\<close> exists and the key of the first run has been
  loaded from the cache file.
\<close>

definition st_second :: state where
  "st_second =
     set_cachedKey 0
       (JArr [JArr [JStr ''touch'', JStr ''out''], JStr ''out:edam'', JStr ''in:ecruos''])
       (RULE [''out''] [''in''] [[''touch'', ''out'']]
          (init_maek [''in'' \<mapsto> ''source'', ''out'' \<mapsto> ''made'']))"

text \<open>A rule with an abstract target, with a key left over in the cache file.\<close>

definition st_test :: state where
  "st_test =
     set_cachedKey 0 (JArr [JArr [JStr ''touch'', JStr ''log''], JStr ''in:ecruos''])
       (RULE ['':test''] [''in''] [[''touch'', ''log'']] (init_maek [''in'' \<mapsto> ''source'']))"


text \<open>
  A rule that generates \<^verbatim>\<open>gen.h\<close> and a compile task for \<^verbatim>\<open>a.cpp\<close>, whose dep-file will list
  \<^verbatim>\<open>gen.h\<close>; a copy of \<^verbatim>\<open>gen.h\<close> from an earlier build is on disk.
\<close>

definition st_gen :: state where
  "st_gen =
     snd (projr (CPP Linux (DEFAULT_OPTIONS Linux) ''a.cpp'' ''objs/a''
       (RULE [''gen.h''] [] [[''touch'', ''gen.h'']]
          (init_maek [''a.cpp'' \<mapsto> ''int main() {}'', ''gen.h'' \<mapsto> ''int g;'']))))"

text \<open>A rule for \<^verbatim>\<open>a\<close>, and a rule for \<^verbatim>\<open>b\<close> that needs \<^verbatim>\<open>a\<close> and whose command fails.\<close>

definition st_fail :: state where
  "st_fail =
     RULE [''b''] [''a''] [[''false'']]
       (RULE [''a''] [] [[''touch'', ''a'']] (init_maek Map.empty))"







section \<open>Properties\<close>

subsection \<open>The dep-file parser\<close>

lemma add_last_snoc: "add_last c (ts @ [cur]) = ts @ [cur @ [c]]"
  by (simp add: add_last_def)

lemma start_token_snoc:
  "start_token (ts @ [cur]) = (if cur = [] then ts @ [cur] else ts @ [cur, []])"
  by (simp add: start_token_def)

lemma tokenize_append: "tokenize inp (ts @ [cur]) = ts @ tokenize inp [cur]"
proof (induction inp arbitrary: ts cur rule: length_induct)
  case (1 inp)
  have IH: "tokenize ys (us @ [v]) = us @ tokenize ys [v]" if "length ys < length inp" for ys us v
    using 1 that by blast
  consider "inp = []" | c where "inp = [c]" | c d rest where "inp = c # d # rest"
    by (cases inp rule: decode.cases) auto
  then show ?case
  proof cases
    case 1
    then show ?thesis by simp
  next
    case 2
    then show ?thesis
      using add_last_snoc[of c ts cur] add_last_snoc[of c "[]" cur]
        start_token_snoc[of ts cur] start_token_snoc[of "[]" cur] by simp
  next
    case 3
    have a: "tokenize (d # rest) (ts @ [cur, []]) = ts @ tokenize (d # rest) [cur, []]"
      using IH[of "d # rest" "ts @ [cur]" "[]"] IH[of "d # rest" "[cur]" "[]"] 3 by simp
    have b: "tokenize ys (ts @ [v]) = ts @ tokenize ys [v]" if "ys = rest \<or> ys = d # rest" for ys v
      using IH[of ys ts v] that 3 by auto
    show ?thesis
    proof (cases "is_space c")
      case True
      then show ?thesis
        unfolding 3 using a b[of "d # rest"]
        by (simp add: start_token_snoc start_token_snoc[of "[]", simplified])
    next
      case False
      then show ?thesis
        unfolding 3 using b[of "d # rest"] b[of rest]
        by (auto simp: add_last_snoc add_last_snoc[of _ "[]", simplified])
    qed
  qed
qed

lemma tokenize_nonempty: "tokens \<noteq> [] \<Longrightarrow> tokenize inp tokens \<noteq> []"
  by (induction inp tokens rule: tokenize.induct)
     (auto simp: add_last_def start_token_def)

lemma pop_empty_Cons: "ts \<noteq> [] \<Longrightarrow> pop_empty (t # ts) = t # pop_empty ts"
  by (simp add: pop_empty_def)

lemma tokenize_space:
  "is_space c \<Longrightarrow> tokenize (c # rest) tokens = tokenize rest (start_token tokens)"
  by (cases rest) simp_all

lemma sep_step:
  assumes IH: "\<And>cur. pop_empty (tokenize rest [cur]) = runs (decode rest) cur"
  shows "pop_empty (tokenize rest (start_token [cur])) = runs (Sep # decode rest) cur"
proof (cases "cur = []")
  case True
  then show ?thesis using IH[of "[]"] by (simp add: start_token_def)
next
  case False
  have "tokenize rest [cur, []] = [cur] @ tokenize rest [[]]"
    using tokenize_append[of rest "[cur]" "[]"] by simp
  moreover have "tokenize rest [[]] \<noteq> []" by (rule tokenize_nonempty) simp
  ultimately show ?thesis using False IH[of "[]"]
    by (simp add: start_token_def pop_empty_Cons)
qed

text \<open>The loop of \<^verbatim>\<open>loadDeps\<close> computes the tokens of the specification.\<close>

lemma tokenize_runs: "pop_empty (tokenize inp [cur]) = runs (decode inp) cur"
proof (induction inp arbitrary: cur rule: decode.induct)
  case 1
  show ?case by (simp add: pop_empty_def)
next
  case (2 c)
  show ?case by (simp add: pop_empty_def add_last_def start_token_def)
next
  case (3 c d rest)
  consider (space) "is_space c"
    | (dollar) "\<not> is_space c" "c = CHR ''$''" "d = CHR ''$''"
    | (continue) "\<not> is_space c" "\<not> (c = CHR ''$'' \<and> d = CHR ''$'')" "c = CHR 0x5C" "d = CHR 0x0A"
    | (escape) "\<not> is_space c" "\<not> (c = CHR ''$'' \<and> d = CHR ''$'')" "c = CHR 0x5C" "d \<noteq> CHR 0x0A"
    | (plain) "\<not> is_space c" "\<not> (c = CHR ''$'' \<and> d = CHR ''$'')" "c \<noteq> CHR 0x5C"
    by blast
  then show ?case
  proof cases
    case space
    have "pop_empty (tokenize (d # rest) (start_token [cur])) = runs (Sep # decode (d # rest)) cur"
      by (rule sep_step) (rule "3.IH"(1)[OF space])
    then show ?thesis using space by simp
  next
    case dollar
    have "pop_empty (tokenize rest [cur @ ''$'']) = runs (decode rest) (cur @ ''$'')"
      using "3.IH"(2) dollar by simp
    then show ?thesis using dollar by (simp add: add_last_def)
  next
    case continue
    have nl: "is_space d" using continue by (simp add: is_space_def)
    have "pop_empty (tokenize rest (start_token [cur])) = runs (Sep # decode rest) cur"
      by (rule sep_step) (rule "3.IH"(3), use continue in simp_all)
    moreover have nd: "(c = CHR ''$'' \<and> d = CHR ''$'') = False" using continue by simp
    ultimately show ?thesis using continue(1,3,4) tokenize_space[OF nl] by (simp add: nd)
  next
    case escape
    have "pop_empty (tokenize rest [cur @ [d]]) = runs (decode rest) (cur @ [d])"
      by (rule "3.IH"(4)) (use escape in simp_all)
    moreover have nd: "(c = CHR ''$'' \<and> d = CHR ''$'') = False" using escape by simp
    ultimately show ?thesis using escape(1,3,4) by (simp add: add_last_def nd)
  next
    case plain
    have "pop_empty (tokenize (d # rest) [cur @ [c]]) = runs (decode (d # rest)) (cur @ [c])"
      by (rule "3.IH"(5)) (use plain in simp_all)
    moreover have nd: "(c = CHR ''$'' \<and> d = CHR ''$'') = False" using plain by simp
    ultimately show ?thesis using plain(1,3) by (simp add: add_last_def nd)
  qed
qed

lemma inDepends_None: "inDepends deps target = None \<longleftrightarrow> target \<notin> set deps"
proof -
  have "fold (\<lambda>d m. m(d \<mapsto> True)) deps m target = None \<longleftrightarrow> target \<notin> set deps \<and> m target = None" for m
    by (induction deps arbitrary: m) auto
  then show ?thesis by (simp add: inDepends_def)
qed

lemma loadDeps_eq:
  "loadDeps fs depsFile deps =
     (case fs depsFile of
        None \<Rightarrow> ([], [])
      | Some inp \<Rightarrow>
          (assert_header (spec_tokens inp),
           filter (\<lambda>target. target \<notin> set deps \<and> \<not> inherited target)
             (sort (drop 2 (spec_tokens inp)))))"
  by (simp add: loadDeps_def spec_tokens_def tokenize_runs inDepends_None js_in_def Let_def
        split: option.split)

lemma assert_header_eq:
  "assert_header tokens =
     (if take 1 tokens = [''x''] then [] else [AssertionFailed]) @
     (if take 1 (drop 1 tokens) = ['':''] then [] else [AssertionFailed])"
proof (cases tokens)
  case Nil
  then show ?thesis by (simp add: assert_header_def)
next
  case (Cons t ts)
  then show ?thesis by (cases ts) (simp_all add: assert_header_def)
qed

text \<open>
  C4 fails on the code. \<^verbatim>\<open>loadDeps\<close> returns the empty list when the dep-file cannot be
  read. Otherwise it splits the text at spaces, tabs and newlines, reads \<^verbatim>\<open>$$\<close> as \<^verbatim>\<open>$\<close>,
  drops a backslash before a newline (which then separates) and reads a backslash before
  another character as that character; it reports an assertion failure when the first
  token is not \<^verbatim>\<open>x\<close> and one when the second is not \<^verbatim>\<open>:\<close>, and goes on; and it returns the
  remaining tokens in lexical order without those among the explicit prerequisites, but
  also without those that name a property of \<^verbatim>\<open>Object.prototype\<close>: of a dep-file that
  lists the headers \<^verbatim>\<open>toString\<close> and \<^verbatim>\<open>util.h\<close> it returns \<^verbatim>\<open>util.h\<close> alone.
\<close>

theorem loadDeps_inherited_name:
  "loadDeps fs depsFile deps =
     (case fs depsFile of
        None \<Rightarrow> ([], [])
      | Some inp \<Rightarrow>
          ((if take 1 (spec_tokens inp) = [''x''] then [] else [AssertionFailed]) @
           (if take 1 (drop 1 (spec_tokens inp)) = ['':''] then [] else [AssertionFailed]),
           filter (\<lambda>target. target \<notin> set deps \<and> \<not> inherited target)
             (sort (drop 2 (spec_tokens inp)))))
   \<and> spec_tokens ''x : a.cpp util.h toString'' = [''x'', '':'', ''a.cpp'', ''util.h'', ''toString'']
   \<and> loadDeps [''objs/a.d'' \<mapsto> ''x : a.cpp util.h toString''] ''objs/a.d'' [''a.cpp''] =
       ([], [''util.h''])
   \<and> loadDeps [''objs/a.d'' \<mapsto> dep_text] ''objs/a.d'' [''a.cpp''] =
       ([], [''$d.h'', ''a.h'', ''inc/b c.h''])
   \<and> loadDeps [''objs/a.d'' \<mapsto> ''y a.cpp''] ''objs/a.d'' [] = ([AssertionFailed, AssertionFailed], [])"
proof -
  have eq: "loadDeps fs depsFile deps =
     (case fs depsFile of
        None \<Rightarrow> ([], [])
      | Some inp \<Rightarrow>
          ((if take 1 (spec_tokens inp) = [''x''] then [] else [AssertionFailed]) @
           (if take 1 (drop 1 (spec_tokens inp)) = ['':''] then [] else [AssertionFailed]),
           filter (\<lambda>target. target \<notin> set deps \<and> \<not> inherited target)
             (sort (drop 2 (spec_tokens inp)))))"
    unfolding loadDeps_eq assert_header_eq ..
  have t: "spec_tokens ''x : a.cpp util.h toString'' = [''x'', '':'', ''a.cpp'', ''util.h'', ''toString'']"
    by (simp add: spec_tokens_def is_space_def)
  have t2: "spec_tokens dep_text = [''x'', '':'', ''a.cpp'', ''inc/b c.h'', ''$d.h'', ''a.h'']"
    by (simp add: dep_text_def spec_tokens_def is_space_def)
  have t3: "spec_tokens ''y a.cpp'' = [''y'', ''a.cpp'']"
    by (simp add: spec_tokens_def is_space_def)
  have i: "inherited ''toString''" "\<not> inherited ''util.h''" "\<not> inherited ''$d.h''"
    "\<not> inherited ''a.h''" "\<not> inherited ''inc/b c.h''" "\<not> inherited ''a.cpp''"
    by (simp_all add: inherited_def object_prototype_def)
  have a: "loadDeps [''objs/a.d'' \<mapsto> ''x : a.cpp util.h toString''] ''objs/a.d'' [''a.cpp''] =
       ([], [''util.h''])"
    by (simp add: loadDeps_eq assert_header_eq t i)
  have b: "loadDeps [''objs/a.d'' \<mapsto> dep_text] ''objs/a.d'' [''a.cpp''] =
       ([], [''$d.h'', ''a.h'', ''inc/b c.h''])"
    by (simp add: loadDeps_eq assert_header_eq t2 i)
  have c: "loadDeps [''objs/a.d'' \<mapsto> ''y a.cpp''] ''objs/a.d'' [] = ([AssertionFailed, AssertionFailed], [])"
    by (simp add: loadDeps_eq assert_header_eq t3)
  show ?thesis by (intro conjI) (rule eq, rule t, rule a, rule b, rule c)
qed

subsection \<open>The hasher\<close>

lemma start_all_spec:
  "start_all fs st =
     (map (\<lambda>f. if js_in f (hashCache st)
                then Hit (case hashCache st f of Some h \<Rightarrow> Record h | None \<Rightarrow> Proto f)
                else Reading f) fs,
      st\<lparr>hashCacheHits := hashCacheHits st + length (filter (\<lambda>f. js_in f (hashCache st)) fs)\<rparr>)"
  by (induction fs arbitrary: st) (auto simp: hashFile_start_def)

lemma store_reading_simps:
  "store_reading env fs (Hit r) hc = hc"
  "store_reading env fs (Reading f) hc = hc(f \<mapsto> hash_record env fs f)"
  by (simp_all add: store_reading_def)

lemma finish_all_fold:
  "finish_all env hs (st\<lparr>hashCache := hc\<rparr>) =
     (map (\<lambda>h. case h of Hit r \<Rightarrow> r | Reading f \<Rightarrow> Record (hash_record env (files st) f)) hs,
      st\<lparr>hashCache := fold (store_reading env (files st)) hs hc\<rparr>)"
proof (induction hs arbitrary: hc)
  case Nil
  show ?case by simp
next
  case (Cons h hs)
  show ?case
    by (cases h) (simp_all add: hashFile_finish_def store_reading_simps Let_def Cons fun_upd_def)
qed

lemma fold_store_reading:
  "fold (store_reading env fs) hs hc f =
     (if Reading f \<in> set hs then Some (hash_record env fs f) else hc f)"
proof (induction hs arbitrary: hc)
  case Nil
  show ?case by simp
next
  case (Cons h hs)
  show ?case by (cases h) (auto simp: store_reading_simps Cons)
qed

lemma finish_all_spec:
  "finish_all env hs st =
     (map (\<lambda>h. case h of Hit r \<Rightarrow> r | Reading f \<Rightarrow> Record (hash_record env (files st) f)) hs,
      st\<lparr>hashCache := (\<lambda>f. if Reading f \<in> set hs then Some (hash_record env (files st) f)
                              else hashCache st f)\<rparr>)"
proof -
  have "fold (store_reading env (files st)) hs (hashCache st) =
        (\<lambda>f. if Reading f \<in> set hs then Some (hash_record env (files st) f) else hashCache st f)"
    by (rule ext) (rule fold_store_reading)
  then show ?thesis using finish_all_fold[where st=st and hc="hashCache st" and env=env and hs=hs] by simp
qed

lemma finish_all_spec':
  assumes "files st1 = fs" "hashCache st1 = hc"
  shows "finish_all env hs st1 =
     (map (\<lambda>h. case h of Hit r \<Rightarrow> r | Reading f \<Rightarrow> Record (hash_record env fs f)) hs,
      st1\<lparr>hashCache := (\<lambda>f. if Reading f \<in> set hs then Some (hash_record env fs f) else hc f)\<rparr>)"
  unfolding assms[symmetric] by (rule finish_all_spec)

lemma Reading_start:
  "Reading f \<in> set (map (\<lambda>f. if js_in f hc
                then Hit (case hc f of Some h \<Rightarrow> Record h | None \<Rightarrow> Proto f)
                else Reading f) fs) \<longleftrightarrow>
   f \<in> set fs \<and> \<not> js_in f hc"
  by (induction fs) auto

lemma hashFiles_eq:
  "hashFiles env targets st =
     (map (cached_or_read env st) (filter (\<lambda>target. \<not> abstract target) targets),
      st\<lparr>hashCacheHits := hashCacheHits st +
            length (filter (\<lambda>f. js_in f (hashCache st)) (filter (\<lambda>target. \<not> abstract target) targets)),
         hashCache := (\<lambda>f. if f \<in> set targets \<and> \<not> abstract f \<and> \<not> js_in f (hashCache st)
                            then Some (hash_record env (files st) f)
                            else hashCache st f)\<rparr>)"
proof -
  let ?fs = "filter (\<lambda>target. \<not> abstract target) targets"
  let ?hs = "map (\<lambda>f. if js_in f (hashCache st)
                then Hit (case hashCache st f of Some h \<Rightarrow> Record h | None \<Rightarrow> Proto f)
                else Reading f) ?fs"
  have a: "(\<lambda>f. if Reading f \<in> set ?hs then Some (hash_record env (files st) f) else hashCache st f) =
        (\<lambda>f. if f \<in> set targets \<and> \<not> abstract f \<and> \<not> js_in f (hashCache st)
              then Some (hash_record env (files st) f)
              else hashCache st f)"
    unfolding Reading_start by (rule ext) auto
  have b: "map (\<lambda>h. case h of Hit r \<Rightarrow> r | Reading f \<Rightarrow> Record (hash_record env (files st) f)) ?hs =
        map (cached_or_read env st) ?fs"
    by (auto simp: cached_or_read_def hash_record_def js_in_def split: option.split)
  let ?st1 = "st\<lparr>hashCacheHits := hashCacheHits st + length (filter (\<lambda>f. js_in f (hashCache st)) ?fs)\<rparr>"
  have s: "start_all ?fs st = (?hs, ?st1)"
    by (rule start_all_spec)
  have f: "finish_all env ?hs ?st1 =
     (map (\<lambda>h. case h of Hit r \<Rightarrow> r | Reading f \<Rightarrow> Record (hash_record env (files st) f)) ?hs,
      ?st1\<lparr>hashCache := (\<lambda>f. if Reading f \<in> set ?hs then Some (hash_record env (files st) f)
                              else hashCache st f)\<rparr>)"
    by (rule finish_all_spec') simp_all
  show ?thesis
    unfolding hashFiles_def Let_def s prod.case f a b ..
qed

text \<open>
  C5 fails on the code. \<^verbatim>\<open>hashFiles\<close> returns one value for each target that does not start
  with \<^verbatim>\<open>:\<close>, in the order of the input. For a file that has an entry in \<^verbatim>\<open>hashCache\<close> it is
  the entry; for a file without entry whose name \<^verbatim>\<open>Object.prototype\<close> does not define it is
  the record \<^verbatim>\<open>path:x\<close> when the file cannot be read and \<^verbatim>\<open>path:\<close> followed by the digest of
  its content when it can, and the record is stored in \<^verbatim>\<open>hashCache\<close>. But for a file
  without entry whose name \<^verbatim>\<open>Object.prototype\<close> defines, the test \<^verbatim>\<open>file in hashCache\<close> holds:
  the value is the inherited property, no record, a hit is counted, the file is not read
  and nothing is stored. So it is for a readable file \<^verbatim>\<open>toString\<close> in a new process.
\<close>

theorem hashFiles_inherited_name:
  "fst (hashFiles env targets st) =
     map (cached_or_read env st) (filter (\<lambda>target. \<not> abstract target) targets) \<and>
   hashCache (snd (hashFiles env targets st)) =
     (\<lambda>f. if f \<in> set targets \<and> \<not> abstract f \<and> hashCache st f = None \<and> \<not> inherited f
           then Some (hash_record env (files st) f)
           else hashCache st f) \<and>
   files (snd (hashFiles env targets st)) = files st \<and>
   cached_or_read env st =
     (\<lambda>f. case hashCache st f of
             Some h \<Rightarrow> Record h
           | None \<Rightarrow>
               if inherited f then Proto f
               else (case files st f of
                       None \<Rightarrow> Record (f @ '':x'')
                     | Some data \<Rightarrow> Record (f @ '':'' @ md5_base64 env data))) \<and>
   inherited ''toString'' \<and>
   hashFiles toy_env [''toString'', ''a''] (init_maek [''toString'' \<mapsto> ''hello'', ''a'' \<mapsto> ''hello'']) =
     ([Proto ''toString'', Record ''a:olleh''],
      (init_maek [''toString'' \<mapsto> ''hello'', ''a'' \<mapsto> ''hello''])
        \<lparr>hashCacheHits := 1, hashCache := [''a'' \<mapsto> ''a:olleh'']\<rparr>)"
proof -
  have i: "inherited ''toString''" "\<not> inherited ''a''"
    by (simp_all add: inherited_def object_prototype_def)
  have c: "cached_or_read env st =
     (\<lambda>f. case hashCache st f of
             Some h \<Rightarrow> Record h
           | None \<Rightarrow>
               if inherited f then Proto f
               else (case files st f of
                       None \<Rightarrow> Record (f @ '':x'')
                     | Some data \<Rightarrow> Record (f @ '':'' @ md5_base64 env data)))"
    by (rule ext) (simp add: cached_or_read_def)
  have h: "hashCache (snd (hashFiles env targets st)) =
     (\<lambda>f. if f \<in> set targets \<and> \<not> abstract f \<and> hashCache st f = None \<and> \<not> inherited f
           then Some (hash_record env (files st) f)
           else hashCache st f)"
    by (rule ext) (simp add: hashFiles_eq js_in_def)
  have e: "hashFiles toy_env [''toString'', ''a''] (init_maek [''toString'' \<mapsto> ''hello'', ''a'' \<mapsto> ''hello'']) =
     ([Proto ''toString'', Record ''a:olleh''],
      (init_maek [''toString'' \<mapsto> ''hello'', ''a'' \<mapsto> ''hello''])
        \<lparr>hashCacheHits := 1, hashCache := [''a'' \<mapsto> ''a:olleh'']\<rparr>)"
    by (simp add: hashFiles_def hashFile_start_def hashFile_finish_def js_in_def i abstract_def
        init_maek_def hash_record_def toy_env_def Let_def)
  show ?thesis
    by (intro conjI) (simp add: hashFiles_eq, rule h, simp add: hashFiles_eq, rule c, rule i, rule e)
qed






subsection \<open>The job limiter\<close>

lemma limiter_inv_step: "limiter_inv jobs s \<Longrightarrow> limiter_inv jobs (step jobs s a)"
proof (cases a)
  case (Submit j)
  assume "limiter_inv jobs s"
  then show ?thesis using Submit by (simp add: limiter_inv_def job_def)
next
  case Tick
  assume "limiter_inv jobs s"
  then show ?thesis using Tick
    by (cases "job_pending s") (simp_all add: limiter_inv_def schedule_def)
next
  case (Settle j)
  assume "limiter_inv jobs s"
  then show ?thesis using Settle
    by (auto simp: limiter_inv_def settle_def length_remove1)
qed

lemma limiter_inv_foldl: "limiter_inv jobs s \<Longrightarrow> limiter_inv jobs (foldl (step jobs) s actions)"
  by (induction actions arbitrary: s) (simp_all add: limiter_inv_step)

lemma limiter_inv_idle: "limiter_inv jobs idle"
  by (simp add: limiter_inv_def idle_def)

text \<open>
  C7. In every state the limiter reaches, the jobs that run are at most
  \<open>JOBS = CPU_COUNT + 1\<close>; jobs start in the order of their submission (what was submitted
  is what has started followed by the queue); and submitting a job starts nothing: it
  queues the job and schedules a turn, and only a turn of \<^verbatim>\<open>schedule\<close> starts jobs.
\<close>

theorem job_limit:
  "length (running (run_limiter env actions)) \<le> JOBS env \<and>
   JOBS env = cpus env + 1 \<and>
   job_active (run_limiter env actions) = length (running (run_limiter env actions)) \<and>
   submitted (run_limiter env actions) =
     started (run_limiter env actions) @ job_pending (run_limiter env actions) \<and>
   running (job jobFn (run_limiter env actions)) = running (run_limiter env actions) \<and>
   started (job jobFn (run_limiter env actions)) = started (run_limiter env actions) \<and>
   0 < ticks (job jobFn (run_limiter env actions)) \<and>
   started (step (JOBS env) (run_limiter env actions) (Settle jobFn)) =
     started (run_limiter env actions)"
proof -
  have "limiter_inv (JOBS env) (run_limiter env actions)"
    unfolding run_limiter_def by (rule limiter_inv_foldl) (rule limiter_inv_idle)
  then show ?thesis
    by (simp add: limiter_inv_def job_def JOBS_def settle_def)
qed

theorem job_limit_witness:
  "running (run_limiter (toy_env\<lparr>cpus := 1\<rparr>)
     [Submit (1::nat), Submit 2, Submit 3, Tick, Tick, Tick, Settle 1, Tick]) = [2, 3] \<and>
   started (run_limiter (toy_env\<lparr>cpus := 1\<rparr>)
     [Submit (1::nat), Submit 2, Submit 3, Tick, Tick, Tick]) = [1, 2] \<and>
   job_pending (run_limiter (toy_env\<lparr>cpus := 1\<rparr>)
     [Submit (1::nat), Submit 2, Submit 3, Tick, Tick, Tick]) = [3] \<and>
   length (running (run_limiter (toy_env\<lparr>cpus := 1\<rparr>)
     [Submit (1::nat), Submit 2, Submit 3, Tick, Tick, Tick])) \<le> 2"
  using job_limit[of "toy_env\<lparr>cpus := 1\<rparr>" "[Submit (1::nat), Submit 2, Submit 3, Tick, Tick, Tick]" 4]
  by (simp add: run_limiter_def JOBS_def toy_env_def idle_def job_def schedule_def settle_def)

subsection \<open>Effects of the steps of a task\<close>

lemma runCommand_Inr:
  "runCommand env command message st = (Inr u, st1) \<Longrightarrow>
   trace st1 = trace st @ [Spawn command] \<and> hashCache st1 = hashCache st \<and>
   heap st1 = heap st \<and> tasks st1 = tasks st \<and> stderr st1 = stderr st"
  by (auto simp: runCommand_def Let_def split: if_splits prod.splits proc_result.splits)

lemma runCommand_frame:
  "runCommand env command message st = (r, st1) \<Longrightarrow>
   hashCache st1 = hashCache st \<and> heap st1 = heap st \<and> tasks st1 = tasks st \<and>
   stderr st1 = stderr st \<and> bodies (trace st1) = bodies (trace st)"
  by (auto simp: runCommand_def Let_def bodies_def split: if_splits prod.splits proc_result.splits)


lemma fold_invalidate:
  "trace (fold invalidate fs st) = trace st @ map Invalidate fs \<and>
   hashCache (fold invalidate fs st) = (\<lambda>f. if f \<in> set fs then None else hashCache st f) \<and>
   heap (fold invalidate fs st) = heap st \<and> tasks (fold invalidate fs st) = tasks st"
  by (induction fs arbitrary: st) (auto simp: invalidate_def)




subsection \<open>\<^verbatim>\<open>assertNontargets\<close>\<close>

lemma assertNontargets_literal:
  "assertNontargets prerequisites ruleName st =
     (if map_of (tasks st) ''target'' = None \<or> prerequisites = [] then Inr ()
      else Inl (BuildError
        (''the following *generated* files are required but not mentioned as dependancies:'' @
         [CHR 0x0A] @ ''  '' @ join ([CHR 0x0A] @ ''  '') prerequisites)))"
  by (simp add: assertNontargets_def Let_def)

text \<open>
  C2 fails on the code. The dep-file of the compile task for \<^verbatim>\<open>a.cpp\<close> lists \<^verbatim>\<open>gen.h\<close>, the
  target of another task, and neither the task body nor the key function reports it:
  the update of \<^verbatim>\<open>objs/a.o\<close> succeeds, without the task for \<^verbatim>\<open>gen.h\<close> being run, and the
  key function returns a key.
\<close>

theorem generated_header_not_detected:
  "map_of (tasks st_gen) ''gen.h'' = Some 0 \<and>
   map_of (tasks st_gen) ''objs/a.o'' = Some 1 \<and>
   assertNontargets [''gen.h''] (label (heap st_gen 1)) st_gen = Inr () \<and>
   map_option (\<lambda>r. (fst r, stderr (snd r), files (snd r) ''objs/a.d'', bodies (trace (snd r))))
     (updateTargets toy_env 2 [''objs/a.o''] ''user'' st_gen) =
     Some (Inr (), [], Some ''x : a.cpp gen.h'', [1]) \<and>
   map_option (\<lambda>r. fst r)
     (taskKey (updateTargets toy_env 1) toy_env (heap st_gen 1)
        (st_gen\<lparr>files := (files st_gen)(''objs/a.d'' \<mapsto> ''x : a.cpp gen.h'')\<rparr>)) =
     Some (Inr (JArr
       [JArr [JStr ''g++'', JStr ''-std=c++20'', JStr ''-Wall'', JStr ''-Werror'', JStr ''-g'',
          JStr ''-c'', JStr ''-o'', JStr ''objs/a.o'', JStr ''a.cpp''],
        JArr [JStr ''g++'', JStr ''-std=c++20'', JStr ''-Wall'', JStr ''-Werror'', JStr ''-g'',
          JStr ''-E'', JStr ''-M'', JStr ''-MG'', JStr ''-MT'', JStr ''x '', JStr ''-MF'',
          JStr ''objs/a.d'', JStr ''a.cpp''],
        JStr ''objs/a.o:x'', JStr ''objs/a.d:h.neg ppc.a : x'', JStr ''a.cpp:}{ )(niam tni'',
        JStr ''gen.h:;g tni'']))"
  by code_simp

subsection \<open>The driver\<close>

lemma cache_object_set:
  "set (cache_object st) =
     {(target, key). \<exists>tid. (target, tid) \<in> set (tasks st) \<and> cachedKey (heap st tid) = Some key}"
  by (auto simp: cache_object_def List.map_filter_def image_iff) force+

text \<open>
  C3 (as amended). When \<^verbatim>\<open>updateTargets\<close> fails with a \<^verbatim>\<open>BuildError\<close> the driver prints
  \<^verbatim>\<open>FAILED\<close> with the message and exits with status 1, and it does not write the cache
  file; another error propagates, and nothing is written either. When \<^verbatim>\<open>updateTargets\<close>
  succeeds the driver writes the cache file, with the \<^verbatim>\<open>cachedKey\<close> of every registered
  task that has one.
\<close>

theorem update_outcome:
  "(updateTargets env n targets ''user'' (load_cache env (clear_cachedKeys st)) =
      Some (Inl (BuildError m), st1) \<longrightarrow>
    update env n targets st = Some (Exit1, st1\<lparr>stderr := stderr st1 @ [FAILED m]\<rparr>) \<and>
    files (st1\<lparr>stderr := stderr st1 @ [FAILED m]\<rparr>) = files st1) \<and>
   (updateTargets env n targets ''user'' (load_cache env (clear_cachedKeys st)) =
      Some (Inl (InternalError m), st1) \<longrightarrow>
    update env n targets st = Some (Uncaught (InternalError m), st1)) \<and>
   (updateTargets env n targets ''user'' (load_cache env (clear_cachedKeys st)) =
      Some (Inr (), st1) \<longrightarrow>
    update env n targets st =
      Some (Returned, st1\<lparr>files := (files st1)(CACHE_FILE \<mapsto> stringify env (JObj (cache_object st1)))\<rparr>) \<and>
    set (cache_object st1) =
      {(target, key). \<exists>tid. (target, tid) \<in> set (tasks st1) \<and> cachedKey (heap st1 tid) = Some key})"
  by (simp add: update_def store_cache_def cache_object_set)

lemma run_result: "map_option fst x = Some a \<Longrightarrow> x = Some (a, snd (the x))"
  by (cases x) auto

theorem update_outcome_witness:
  "map_option (\<lambda>r. (fst r, files (snd r) CACHE_FILE)) (update toy_env 2 [''a''] st_fail) =
     Some (Returned, Some (render (JObj [(''a'', JArr [JArr [JStr ''touch'', JStr ''a''], JStr ''a:edam''])]))) \<and>
   map_option (\<lambda>r. (fst r, files (snd r) CACHE_FILE, last (stderr (snd r)))) (update toy_env 3 [''b''] st_fail) =
     Some (Exit1, None, FAILED ''prerequisite failed.'')"
proof -
  define s1 where "s1 = snd (the (updateTargets toy_env 2 [''a''] ''user''
    (load_cache toy_env (clear_cachedKeys st_fail))))"
  define s2 where "s2 = snd (the (updateTargets toy_env 3 [''b''] ''user''
    (load_cache toy_env (clear_cachedKeys st_fail))))"
  have "map_option fst (updateTargets toy_env 2 [''a''] ''user''
      (load_cache toy_env (clear_cachedKeys st_fail))) = Some (Inr ())"
    by code_simp
  then have a: "updateTargets toy_env 2 [''a''] ''user''
      (load_cache toy_env (clear_cachedKeys st_fail)) = Some (Inr (), s1)"
    unfolding s1_def by (rule run_result)
  have a1: "cache_object s1 = [(''a'', JArr [JArr [JStr ''touch'', JStr ''a''], JStr ''a:edam''])]"
    unfolding s1_def by code_simp
  have a2: "files s1 CACHE_FILE = None"
    unfolding s1_def by code_simp
  have "map_option fst (updateTargets toy_env 3 [''b''] ''user''
      (load_cache toy_env (clear_cachedKeys st_fail))) = Some (Inl (BuildError ''prerequisite failed.''))"
    by code_simp
  then have b: "updateTargets toy_env 3 [''b''] ''user''
      (load_cache toy_env (clear_cachedKeys st_fail)) =
      Some (Inl (BuildError ''prerequisite failed.''), s2)"
    unfolding s2_def by (rule run_result)
  have b2: "files s2 CACHE_FILE = None"
    unfolding s2_def by code_simp
  show ?thesis
    using update_outcome[of toy_env 2 "[''a'']" st_fail "''x''" s1] a a1
      update_outcome[of toy_env 3 "[''b'']" st_fail "''prerequisite failed.''" s2] b b2
    by (simp add: toy_env_def)
qed

text \<open>
  C3 as stated fails: the update of \<^verbatim>\<open>b\<close> fails after the task for \<^verbatim>\<open>a\<close> has stored its key,
  the driver exits with status 1, and there is no cache file.
\<close>

theorem cache_not_written_counterexample:
  "map_option (\<lambda>r. (fst r, files (snd r) CACHE_FILE, cache_object (snd r), last (stderr (snd r))))
     (update toy_env 3 [''b''] st_fail) =
   Some (Exit1, None, [(''a'', JArr [JArr [JStr ''touch'', JStr ''a''], JStr ''a:edam''])],
     FAILED ''prerequisite failed.'')"
  by code_simp

subsection \<open>The update of one task\<close>

lemma hashFiles_frame:
  "hashFiles env targets st = (hs, st1) \<Longrightarrow>
   trace st1 = trace st \<and> heap st1 = heap st \<and> tasks st1 = tasks st \<and>
   files st1 = files st \<and> stderr st1 = stderr st"
  by (auto simp: hashFiles_eq)

lemma taskKey_trace:
  assumes "taskKey upd env t st = Some (Inr key, st1)"
  shows "\<exists>st0. upd (prereqs_of (kind t)) (label t @ '' (keyFn)'') st = Some (Inr (), st0) \<and>
     trace st1 = trace st0 \<and> files st1 = files st0 \<and> heap st1 = heap st0"
proof (cases "kind t")
  case (Rule targets prerequisites recipe)
  with assms show ?thesis
    by (auto simp: taskKey_def prereqs_of_def split: option.splits prod.splits sum.splits
        dest!: hashFiles_frame)
next
  case (Cpp objFile depsFile deps objCommand depsCommand)
  with assms show ?thesis
    by (auto simp: taskKey_def prereqs_of_def Let_def split: option.splits prod.splits sum.splits
        dest!: hashFiles_frame)
next
  case (Link exeFile deps linkCommand)
  with assms show ?thesis
    by (auto simp: taskKey_def prereqs_of_def split: option.splits prod.splits sum.splits
        dest!: hashFiles_frame)
qed

text \<open>
  C1. When a task has a key function and a cached key, and the key function returns a
  key whose serialisation equals that of the cached key, the update of the task
  succeeds in the state the key function left: the task body is not called, and the only
  events recorded are those of updating the prerequisites, so no command of the task
  is spawned.
\<close>

theorem cache_hit:
  assumes "keyFn (heap st tid)" and "cachedKey (heap st tid) \<noteq> None"
    and "taskKey upd env (heap st tid) st = Some (Inr key, st1)"
    and "map_option (stringify env) (cachedKey (heap st1 tid)) = Some (stringify env key)"
  shows "pendingBody upd env frm tid st = Some (Inr (), st1) \<and>
    (\<exists>st0. upd (prereqs_of (kind (heap st tid))) (label (heap st tid) @ '' (keyFn)'') st =
        Some (Inr (), st0) \<and> trace st1 = trace st0 \<and> files st1 = files st0)"
proof -
  have "Some (stringify env key) = map_option (stringify env) (cachedKey (heap st1 tid))"
    by (rule assms(4)[symmetric])
  then have "pendingBody upd env frm tid st = Some (Inr (), st1)"
    using assms(1-3) unfolding pendingBody_def Let_def by auto
  moreover obtain st0 where
    "upd (prereqs_of (kind (heap st tid))) (label (heap st tid) @ '' (keyFn)'') st = Some (Inr (), st0)"
    "trace st1 = trace st0" "files st1 = files st0"
    using taskKey_trace[OF assms(3)] by blast
  ultimately show ?thesis by blast
qed

theorem cache_hit_witness:
  "map_option (\<lambda>r. (fst r, trace (snd r)))
     (pendingBody (updateTargets toy_env 1) toy_env ''user'' 0 st_second) = Some (Inr (), []) \<and>
   map_option (\<lambda>r. (fst r, trace (snd r), files (snd r) ''out''))
     (updateTargets toy_env 2 [''out''] ''user'' st_second) = Some (Inr (), [], Some ''made'') \<and>
   map_option (\<lambda>r. (cachedKey (heap (snd r) 0), files (snd r) ''in'', files (snd r) ''out''))
     (updateTargets toy_env 2 [''out''] ''user'' st_rule) =
     Some (Some (JArr [JArr [JStr ''touch'', JStr ''out''], JStr ''out:edam'', JStr ''in:ecruos'']),
       Some ''source'', Some ''made'')"
proof -
  define key where "key = JArr [JArr [JStr ''touch'', JStr ''out''], JStr ''out:edam'', JStr ''in:ecruos'']"
  define s1 where "s1 = snd (the (taskKey (updateTargets toy_env 1) toy_env (heap st_second 0) st_second))"
  have "map_option fst (taskKey (updateTargets toy_env 1) toy_env (heap st_second 0) st_second) =
      Some (Inr key)"
    unfolding key_def by code_simp
  then have k: "taskKey (updateTargets toy_env 1) toy_env (heap st_second 0) st_second = Some (Inr key, s1)"
    unfolding s1_def by (rule run_result)
  have h1: "keyFn (heap st_second 0)" by code_simp
  have h2: "cachedKey (heap st_second 0) \<noteq> None" by code_simp
  have h4: "map_option (stringify toy_env) (cachedKey (heap s1 0)) = Some (stringify toy_env key)"
    unfolding s1_def key_def by code_simp
  have t: "trace s1 = []" unfolding s1_def by code_simp
  have p: "pendingBody (updateTargets toy_env 1) toy_env ''user'' 0 st_second = Some (Inr (), s1)"
    using cache_hit[OF h1 h2 k h4, of "''user''"] by blast
  have "map_option (\<lambda>r. (fst r, trace (snd r), files (snd r) ''out''))
     (updateTargets toy_env 2 [''out''] ''user'' st_second) = Some (Inr (), [], Some ''made'')"
    by code_simp
  moreover have "map_option (\<lambda>r. (cachedKey (heap (snd r) 0), files (snd r) ''in'', files (snd r) ''out''))
     (updateTargets toy_env 2 [''out''] ''user'' st_rule) =
     Some (Some (JArr [JArr [JStr ''touch'', JStr ''out''], JStr ''out:edam'', JStr ''in:ecruos'']),
       Some ''source'', Some ''made'')"
    by code_simp
  ultimately show ?thesis using p t by simp
qed


lemma map_of_register:
  "map_of (fold (\<lambda>target reg. AList.update target v reg) targets reg) target =
     (if target \<in> set targets then Some v else map_of reg target)"
  by (induction targets arbitrary: reg) (auto simp: update_conv')

lemma runRecipe_trace:
  "runRecipe env lbl n i recipe st = (r, st1) \<Longrightarrow>
   \<exists>k\<le>length recipe. trace st1 = trace st @ map Spawn (take k recipe) \<and>
     (r = Inr () \<longrightarrow> k = length recipe) \<and> (recipe \<noteq> [] \<and> hd recipe \<noteq> [] \<longrightarrow> 0 < k)"
proof (induction recipe arbitrary: st i)
  case Nil
  then show ?case by simp
next
  case (Cons command rest)
  obtain r1 s where rc: "runCommand env command (lbl @ '' ('' @ show_nat i @ ''/'' @ show_nat n @ '')'') st = (r1, s)"
    by (cases "runCommand env command (lbl @ '' ('' @ show_nat i @ ''/'' @ show_nat n @ '')'') st")
  show ?case
  proof (cases r1)
    case (Inl e)
    then have res: "r = Inl e" "st1 = s" using Cons.prems rc by simp_all
    show ?thesis
    proof (cases "command = []")
      case True
      then have "s = st" using rc by (simp add: runCommand_def)
      then show ?thesis using res True by (intro exI[of _ 0]) simp
    next
      case False
      then have "trace s = trace st @ [Spawn command]"
        using rc by (auto simp: runCommand_def Let_def split: prod.splits proc_result.splits if_splits)
      then show ?thesis using res by (intro exI[of _ 1]) simp
    qed
  next
    case (Inr v)
    then have "runRecipe env lbl n (i + 1) rest s = (r, st1)" using Cons.prems rc by simp
    from Cons.IH[OF this] obtain k where k: "k \<le> length rest"
      "trace st1 = trace s @ map Spawn (take k rest)" "r = Inr () \<longrightarrow> k = length rest"
      by blast
    have "trace s = trace st @ [Spawn command]"
      using runCommand_Inr[of env command _ st v s] rc Inr by simp
    then show ?thesis using k by (intro exI[of _ "Suc k"]) simp
  qed
qed

text \<open>
  C6. A task that \<^verbatim>\<open>RULE\<close> registers for targets of which one is abstract has no key
  function, and every one of its targets leads to it. The update of a task without key
  function never takes the cache path, whatever \<^verbatim>\<open>cachedKey\<close> holds: it calls the task
  body, and once the prerequisites are up to date the recipe commands are spawned in
  order (all of them when each one succeeds, up to the first one that fails otherwise).
\<close>

theorem abstract_rule_not_cached:
  "(list_ex abstract targets \<longrightarrow>
      \<not> keyFn (heap (RULE targets prerequisites recipe st) (fresh st)) \<and>
      kind (heap (RULE targets prerequisites recipe st) (fresh st)) =
        Rule targets prerequisites recipe \<and>
      (\<forall>target \<in> set targets.
         map_of (tasks (RULE targets prerequisites recipe st)) target = Some (fresh st))) \<and>
   (\<not> keyFn (heap s tid) \<and> kind (heap s tid) = Rule targets prerequisites recipe \<longrightarrow>
      pendingBody upd env frm tid s = run_and_store upd env frm tid (heap s tid) s \<and>
      (\<forall>s1. upd prerequisites (label (heap s tid)) (s\<lparr>trace := trace s @ [Body tid]\<rparr>) =
            Some (Inr (), s1) \<longrightarrow>
         (\<exists>p s2 k. pendingBody upd env frm tid s = Some (p, s2) \<and> k \<le> length recipe \<and>
            trace s2 = trace s1 @ map Spawn (take k recipe) @
              (if p = Inr () then map Invalidate targets else []) \<and>
            (p = Inr () \<longrightarrow> k = length recipe) \<and>
            (recipe \<noteq> [] \<and> hd recipe \<noteq> [] \<longrightarrow> 0 < k))))"
proof (intro conjI impI allI)
  assume "list_ex abstract targets"
  then show "\<not> keyFn (heap (RULE targets prerequisites recipe st) (fresh st))"
    by (simp add: RULE_def register_def new_task_def)
next
  show "kind (heap (RULE targets prerequisites recipe st) (fresh st)) = Rule targets prerequisites recipe"
    by (simp add: RULE_def register_def new_task_def)
next
  show "\<forall>target \<in> set targets. map_of (tasks (RULE targets prerequisites recipe st)) target = Some (fresh st)"
    by (simp add: RULE_def register_def map_of_register)
next
  assume h: "\<not> keyFn (heap s tid) \<and> kind (heap s tid) = Rule targets prerequisites recipe"
  then show "pendingBody upd env frm tid s = run_and_store upd env frm tid (heap s tid) s"
    by (simp add: pendingBody_def Let_def)
next
  fix s1
  assume h: "\<not> keyFn (heap s tid) \<and> kind (heap s tid) = Rule targets prerequisites recipe"
    and u: "upd prerequisites (label (heap s tid)) (s\<lparr>trace := trace s @ [Body tid]\<rparr>) = Some (Inr (), s1)"
  have pb: "pendingBody upd env frm tid s = run_and_store upd env frm tid (heap s tid) s"
    using h by (simp add: pendingBody_def Let_def)
  obtain r s2 where rr: "runRecipe env (label (heap s tid)) (length recipe) 1 recipe s1 = (r, s2)"
    by (cases "runRecipe env (label (heap s tid)) (length recipe) 1 recipe s1")
  from runRecipe_trace[OF rr] obtain k where k: "k \<le> length recipe"
    "trace s2 = trace s1 @ map Spawn (take k recipe)" "r = Inr () \<longrightarrow> k = length recipe"
    "recipe \<noteq> [] \<and> hd recipe \<noteq> [] \<longrightarrow> 0 < k"
    by blast
  show "\<exists>p s2 k. pendingBody upd env frm tid s = Some (p, s2) \<and> k \<le> length recipe \<and>
            trace s2 = trace s1 @ map Spawn (take k recipe) @
              (if p = Inr () then map Invalidate targets else []) \<and>
            (p = Inr () \<longrightarrow> k = length recipe) \<and>
            (recipe \<noteq> [] \<and> hd recipe \<noteq> [] \<longrightarrow> 0 < k)"
  proof (cases r)
    case (Inl e)
    obtain p s3 where c: "catch_error (label (heap s tid)) frm e s2 = (p, s3)"
      by (cases "catch_error (label (heap s tid)) frm e s2")
    then have "p \<noteq> Inr ()" "trace s3 = trace s2"
      by (auto simp: catch_error_def split: error.splits)
    moreover have "pendingBody upd env frm tid s = Some (p, s3)"
      using pb h u rr Inl c by (simp add: run_and_store_def taskBody_def)
    ultimately show ?thesis using k Inl by (intro exI[of _ p] exI[of _ s3] exI[of _ k]) simp
  next
    case (Inr v)
    have "pendingBody upd env frm tid s = Some (Inr (), fold invalidate targets s2)"
      using pb h u rr Inr by (simp add: run_and_store_def taskBody_def)
    then show ?thesis using k Inr fold_invalidate[of targets s2]
      by (intro exI[of _ "Inr ()"] exI[of _ "fold invalidate targets s2"] exI[of _ k]) simp
  qed
qed

theorem abstract_rule_not_cached_witness:
  "\<not> keyFn (heap st_test 0) \<and> cachedKey (heap st_test 0) \<noteq> None \<and>
   map_of (tasks st_test) '':test'' = Some 0 \<and>
   map_option (\<lambda>r. (fst r, trace (snd r)))
     (pendingBody (updateTargets toy_env 1) toy_env ''user'' 0 st_test) =
     Some (Inr (), [Body 0, Spawn [''touch'', ''log''], Invalidate '':test''])"
proof -
  have h: "\<not> keyFn (heap st_test 0) \<and> kind (heap st_test 0) = Rule ['':test''] [''in''] [[''touch'', ''log'']]"
    by code_simp
  have pb: "pendingBody (updateTargets toy_env 1) toy_env ''user'' 0 st_test =
      run_and_store (updateTargets toy_env 1) toy_env ''user'' 0 (heap st_test 0) st_test"
    using abstract_rule_not_cached[of "['':test'']" "[''in'']" "[[''touch'', ''log'']]"
        "init_maek [''in'' \<mapsto> ''source'']" st_test 0 "updateTargets toy_env 1" toy_env "''user''"] h
    by blast
  have "map_option (\<lambda>r. (fst r, trace (snd r)))
     (run_and_store (updateTargets toy_env 1) toy_env ''user'' 0 (heap st_test 0) st_test) =
     Some (Inr (), [Body 0, Spawn [''touch'', ''log''], Invalidate '':test''])"
    by code_simp
  moreover have "cachedKey (heap st_test 0) \<noteq> None \<and> map_of (tasks st_test) '':test'' = Some 0"
    by code_simp
  ultimately show ?thesis using h pb by simp
qed

subsection \<open>Launching tasks\<close>



lemma extends_mono: "extends rank r m m' \<Longrightarrow> r \<le> r' \<Longrightarrow> extends rank r' m m'"
  unfolding extends_def
  apply (elim exE conjE)
  subgoal for new
    apply (intro exI[of _ new] conjI)
            apply assumption
           apply assumption
          apply fastforce
         apply (metis less_le_trans)
        apply assumption+
    done
  done

lemma acyclic_by_trace [simp]: "acyclic_by rank (st\<lparr>trace := t\<rparr>) = acyclic_by rank st"
  by (simp add: acyclic_by_def)

lemma bounded_trace [simp]: "bounded rank r ts (st\<lparr>trace := t\<rparr>) = bounded rank r ts st"
  by (simp add: bounded_def)

lemma registered_trace [simp]: "registered (st\<lparr>trace := t\<rparr>) = registered st"
  by (rule ext) (simp add: registered_def)










lemma bodies_append [simp]: "bodies (xs @ ys) = bodies xs @ bodies ys"
  by (simp add: bodies_def)

lemma bodies_simps [simp]:
  "bodies [] = []" "bodies (Body tid # evs) = tid # bodies evs"
  "bodies (Spawn c # evs) = bodies evs" "bodies (Invalidate f # evs) = bodies evs"
  by (simp_all add: bodies_def)

lemma bodies_map_Body [simp]: "bodies (map Body xs) = xs"
  by (induction xs) simp_all

lemma same_graph_refl [simp]: "same_graph st st"
  by (simp add: same_graph_def)















lemma variant_refl [simp]: "variant m m"
  by (simp add: variant_def)


































end
